theory Spec2Isabelle
  imports Complex_Main "HOL-Library.Word" "HOL-Library.AList"
begin

section \<open>Strings and arrays as JavaScript has them\<close>

text \<open>
  A JavaScript string is a sequence of UTF-16 code units. Reading an array out of range
  gives \<open>undefined\<close> (here \<open>None\<close>), and a template literal prints \<open>undefined\<close> as the
  nine letters of that word.
\<close>

type_synonym code_unit = "16 word"
type_synonym jsstring = "code_unit list"

definition ascii :: "string \<Rightarrow> jsstring" where
  "ascii s = map of_char s"

definition nth_js :: "'a list \<Rightarrow> nat \<Rightarrow> 'a option" where
  "nth_js xs i = (if i < length xs then Some (xs ! i) else None)"

definition js_str :: "jsstring option \<Rightarrow> jsstring" where
  "js_str v = (case v of None \<Rightarrow> ascii ''undefined'' | Some x \<Rightarrow> x)"

text \<open>\<open>String.prototype.trim\<close> strips WhiteSpace and LineTerminator code units.\<close>

definition is_ws :: "code_unit \<Rightarrow> bool" where
  "is_ws c =
     (c \<in> set [9, 10, 11, 12, 13, 32, 160, 5760, 8232, 8233, 8239, 8287, 12288, 65279]
      \<or> (8192 \<le> c \<and> c \<le> 8202))"

definition trim :: "jsstring \<Rightarrow> jsstring" where
  "trim s = rev (dropWhile is_ws (rev (dropWhile is_ws s)))"

text \<open>\<open>s.split(sep)\<close> for a one-unit separator: the empty string splits into one empty piece.\<close>

fun split_js :: "code_unit \<Rightarrow> jsstring \<Rightarrow> jsstring list" where
  "split_js sep [] = [[]]"
| "split_js sep (c # cs) =
     (if c = sep then [] # split_js sep cs
      else (case split_js sep cs of [] \<Rightarrow> [[c]] | w # ws \<Rightarrow> (c # w) # ws))"

text \<open>\<open>s.split(sep).map(l => l.trim()).filter(Boolean)\<close>: the empty string is the only falsy one.\<close>

definition split_trim_filter :: "code_unit \<Rightarrow> jsstring \<Rightarrow> jsstring list" where
  "split_trim_filter sep s = filter (\<lambda>l. l \<noteq> []) (map trim (split_js sep s))"

text \<open>The test \<open>/^\d+$/.test(s)\<close>: one or more of the digits 0 to 9 and nothing else.\<close>

definition is_digit :: "code_unit \<Rightarrow> bool" where
  "is_digit c = (48 \<le> c \<and> c \<le> 57)"

definition digits_only :: "jsstring \<Rightarrow> bool" where
  "digits_only s = (s \<noteq> [] \<and> list_all is_digit s)"

section \<open>The data model\<close>

type_synonym tid = jsstring
type_synonym ref = nat
type_synonym ws_id = nat
type_synonym handle = nat
type_synonym timer = nat

datatype reason = Stopped | MostCookiesFailed | NoHealthyCookies

datatype log_text =
    TooManyUnhealthy nat nat
  | CreatingSession nat
  | SessionFailed nat
  | SessionNoThread nat
  | SessionReady nat
  | SendFailed
  | MessageSent
  | Loop nat
  | TaskStartedLog tid
  | TaskStopped reason

datatype ws_msg =
    LogMsg tid log_text
  | InvalidThreadID
  | TaskStarted tid
  | StoppedMsg tid reason
  | MonitorData int nat nat

text \<open>
  What the process does to the outside, in order: a line on the console, a call of
  \<open>ws.send\<close> on a connection, a call of the remote login or of the remote send.
\<close>

datatype effect =
    ConsoleLog tid log_text
  | ConsoleError
  | WsSend ws_id ws_msg
  | RemoteLogin jsstring
  | RemoteSend handle jsstring jsstring

record TaskConfig =
  delay :: int
  running :: bool
  cookies :: "jsstring list"

record TaskMessageData =
  threadID :: jsstring
  messages :: "jsstring list"
  hatersName :: "jsstring list"
  lastName :: "jsstring list"
  currentIndex :: nat
  loopCount :: nat

record session =
  api :: handle
  healthy :: bool

record RawSessionManager =
  m_ws :: ws_id
  m_taskId :: tid
  totalSessions :: nat
  sessions :: "(nat \<times> session) list"
  sessionQueue :: "nat list"
  unhealthyCount :: nat
  unhealthyThreshold :: nat

record task =
  taskId :: tid
  config :: TaskConfig
  messageData :: TaskMessageData
  rawManager :: RawSessionManager
  intervalId :: "timer option"
  ws :: ws_id

text \<open>
  The process state. Task objects live in \<open>store\<close> under their reference: closures keep
  one alive after \<open>tasks\<close>, the registry \<open>Map\<close>, has dropped it. \<open>timers\<close> holds the live
  intervals with the task id their callback closes over, \<open>timeouts\<close> the pending
  \<open>setTimeout(..., 0)\<close> callbacks in the order they were scheduled, \<open>boots\<close> the
  \<open>createRawSessions\<close> loops suspended at their \<open>await\<close> with the loop index,
  \<open>inflight\<close> the \<open>sendMessage\<close> calls that have not returned yet, each with its snapshot
  of handles, and \<open>microtasks\<close> the \<open>.then\<close> callbacks of bootstraps that have returned,
  with the value returned; they run when the current handler is over.
\<close>

record server =
  store :: "(ref \<times> task) list"
  next_ref :: ref
  tasks :: "(tid \<times> ref) list"
  startTime :: int
  activeTasks :: nat
  totalSent :: nat
  timers :: "(timer \<times> tid) list"
  next_timer :: timer
  timeouts :: "(tid \<times> ws_id \<times> reason) list"
  boots :: "(ref \<times> nat) list"
  inflight :: "(ref \<times> handle list \<times> jsstring \<times> jsstring) list"
  microtasks :: "(ref \<times> bool) list"
  ws_open :: "ws_id \<Rightarrow> bool"
  out :: "effect list"

definition upd_task :: "ref \<Rightarrow> (task \<Rightarrow> task) \<Rightarrow> server \<Rightarrow> server" where
  "upd_task r f s = s\<lparr>store := AList.map_entry r f (store s)\<rparr>"

definition upd_manager :: "ref \<Rightarrow> (RawSessionManager \<Rightarrow> RawSessionManager) \<Rightarrow> server \<Rightarrow> server" where
  "upd_manager r f s = upd_task r (\<lambda>t. t\<lparr>rawManager := f (rawManager t)\<rparr>) s"

definition upd_messageData :: "ref \<Rightarrow> (TaskMessageData \<Rightarrow> TaskMessageData) \<Rightarrow> server \<Rightarrow> server" where
  "upd_messageData r f s = upd_task r (\<lambda>t. t\<lparr>messageData := f (messageData t)\<rparr>) s"

definition emit :: "effect \<Rightarrow> server \<Rightarrow> server" where
  "emit x s = s\<lparr>out := out s @ [x]\<rparr>"

section \<open>TaskConfig, RawSessionManager\<close>

text \<open>
  \<open>parseInt(delay) || 10\<close>, where \<open>None\<close> stands for \<open>NaN\<close>; the constructor of
  \<open>TaskConfig\<close> applies it once more to the number \<open>startTask\<close> has already parsed.
  The second application is the identity on integers below \<open>10^21\<close> in magnitude, the
  range this model covers: from there on JavaScript prints a number in exponent form and
  \<open>parseInt\<close> reads only its leading digit. Nothing below reads \<open>delay\<close>.
\<close>

definition parseInt_or_10 :: "int option \<Rightarrow> int" where
  "parseInt_or_10 d = (case d of None \<Rightarrow> 10 | Some n \<Rightarrow> if n = 0 then 10 else n)"

definition TaskConfig_new :: "int \<Rightarrow> jsstring list \<Rightarrow> TaskConfig" where
  "TaskConfig_new d cs = \<lparr>delay = parseInt_or_10 (Some d), running = True, cookies = cs\<rparr>"

definition TaskMessageData_new ::
  "jsstring \<Rightarrow> jsstring list \<Rightarrow> jsstring list \<Rightarrow> jsstring list \<Rightarrow> TaskMessageData" where
  "TaskMessageData_new th ms hs ls =
     \<lparr>threadID = th, messages = ms, hatersName = hs, lastName = ls,
      currentIndex = 0, loopCount = 0\<rparr>"

text \<open>
  \<open>Math.max(1, Math.floor(totalSessions * 0.75))\<close>. The factor is 3/4, a dyadic
  fraction, and \<open>totalSessions\<close> is an array length, so the product is exact in double
  precision and its floor is the integer quotient of \<open>3 * totalSessions\<close> by 4.
\<close>

definition RawSessionManager_new :: "ws_id \<Rightarrow> tid \<Rightarrow> nat \<Rightarrow> RawSessionManager" where
  "RawSessionManager_new w i n =
     \<lparr>m_ws = w, m_taskId = i, totalSessions = n, sessions = [], sessionQueue = [],
      unhealthyCount = 0, unhealthyThreshold = max 1 ((n * 3) div 4)\<rparr>"

text \<open>\<open>log\<close> of the manager of task object \<open>r\<close>: the console always, the socket when open.\<close>

definition log_msg :: "ref \<Rightarrow> log_text \<Rightarrow> server \<Rightarrow> server" where
  "log_msg r msg s =
     (case map_of (store s) r of
        None \<Rightarrow> s
      | Some t \<Rightarrow>
          (let m = rawManager t;
               s1 = emit (ConsoleLog (m_taskId m) msg) s
           in if ws_open s1 (m_ws m) then emit (WsSend (m_ws m) (LogMsg (m_taskId m) msg)) s1
              else s1))"

definition checkStopCondition :: "ref \<Rightarrow> server \<Rightarrow> bool \<times> server" where
  "checkStopCondition r s =
     (case map_of (store s) r of
        None \<Rightarrow> (False, s)
      | Some t \<Rightarrow>
          (let m = rawManager t in
           if unhealthyCount m \<ge> unhealthyThreshold m then
             (let s1 = log_msg r (TooManyUnhealthy (unhealthyCount m) (totalSessions m)) s
              in (True, s1\<lparr>timeouts := timeouts s1 @ [(m_taskId m, m_ws m, MostCookiesFailed)]\<rparr>))
           else (False, s)))"

text \<open>
  One credential. \<open>createRawSession_begin\<close> is the synchronous part (the log line and
  the call of the remote login); \<open>createRawSession_done\<close> is what the callbacks do once
  the remote side has answered: the login failed, the login succeeded and the thread
  probe failed, or both succeeded and gave the handle.
\<close>

datatype outcome = LoginFailed | NoThreadAccess | Ready handle

definition createRawSession_begin :: "ref \<Rightarrow> jsstring \<Rightarrow> nat \<Rightarrow> server \<Rightarrow> server" where
  "createRawSession_begin r cookie i s = emit (RemoteLogin cookie) (log_msg r (CreatingSession (i + 1)) s)"

definition createRawSession_done :: "ref \<Rightarrow> nat \<Rightarrow> outcome \<Rightarrow> server \<Rightarrow> server" where
  "createRawSession_done r i oc s =
     (case oc of
        LoginFailed \<Rightarrow>
          snd (checkStopCondition r
            (log_msg r (SessionFailed (i + 1))
              (upd_manager r (\<lambda>m. m\<lparr>unhealthyCount := unhealthyCount m + 1\<rparr>) s)))
      | NoThreadAccess \<Rightarrow>
          snd (checkStopCondition r
            (log_msg r (SessionNoThread (i + 1))
              (upd_manager r (\<lambda>m. m\<lparr>unhealthyCount := unhealthyCount m + 1\<rparr>) s)))
      | Ready a \<Rightarrow>
          log_msg r (SessionReady (i + 1))
            (upd_manager r
              (\<lambda>m. m\<lparr>sessions := AList.update i \<lparr>api = a, healthy = True\<rparr> (sessions m),
                     sessionQueue := sessionQueue m @ [i]\<rparr>) s))"

definition createRawSession :: "ref \<Rightarrow> jsstring \<Rightarrow> nat \<Rightarrow> outcome \<Rightarrow> server \<Rightarrow> server" where
  "createRawSession r cookie i oc s = createRawSession_done r i oc (createRawSession_begin r cookie i s)"

definition getHealthySessions :: "RawSessionManager \<Rightarrow> handle list" where
  "getHealthySessions m = map api (filter healthy (map snd (sessions m)))"

section \<open>RawMessageSender\<close>

text \<open>
  The loop of \<open>sendMessage\<close> over its snapshot of handles. \<open>ok k\<close> is the answer of the
  remote side to the \<open>k\<close>-th send of this call.
\<close>

fun sendMessage_loop ::
  "ref \<Rightarrow> jsstring \<Rightarrow> jsstring \<Rightarrow> (nat \<Rightarrow> bool) \<Rightarrow> nat \<Rightarrow> handle list \<Rightarrow> server \<Rightarrow> bool \<times> server" where
  "sendMessage_loop r msg th ok k [] s = (False, s)"
| "sendMessage_loop r msg th ok k (a # rest) s =
     (let s1 = emit (RemoteSend a msg th) s in
      if ok k then (True, log_msg r MessageSent s1)
      else sendMessage_loop r msg th ok (Suc k) rest (log_msg r SendFailed s1))"

definition sendMessage :: "ref \<Rightarrow> jsstring \<Rightarrow> jsstring \<Rightarrow> (nat \<Rightarrow> bool) \<Rightarrow> server \<Rightarrow> bool \<times> server" where
  "sendMessage r finalMsg th ok s =
     (case map_of (store s) r of
        None \<Rightarrow> (False, s)
      | Some t \<Rightarrow>
          (let sessions = getHealthySessions (rawManager t) in
           if sessions = [] then (False, s)
           else sendMessage_loop r finalMsg th ok 0 sessions s))"

section \<open>Core task logic\<close>

text \<open>
  \<open>stopTask\<close>. The registry maps a task id to the reference of its object; an id whose
  reference is not in the store cannot arise and is treated as absent.
\<close>

definition stopTask :: "tid \<Rightarrow> ws_id \<Rightarrow> reason \<Rightarrow> server \<Rightarrow> server" where
  "stopTask i w rsn s =
     (case map_of (tasks s) i of
        None \<Rightarrow> s
      | Some r \<Rightarrow>
          (case map_of (store s) r of
             None \<Rightarrow> s
           | Some t \<Rightarrow>
               (let s1 = (case intervalId t of
                            None \<Rightarrow> s
                          | Some tm \<Rightarrow> s\<lparr>timers := AList.delete tm (timers s)\<rparr>);
                    s2 = upd_task r (\<lambda>t. t\<lparr>config := (config t)\<lparr>running := False\<rparr>\<rparr>) s1;
                    s3 = s2\<lparr>tasks := AList.delete i (tasks s2)\<rparr>;
                    s4 = s3\<lparr>activeTasks := length (tasks s3)\<rparr>;
                    s5 = log_msg r (TaskStopped rsn) s4
                in if ws_open s5 w then emit (WsSend w (StoppedMsg i rsn)) s5 else s5)))"

text \<open>
  The callback \<open>startTask\<close> attaches to the bootstrap with \<open>.then\<close>: it closes over the
  task object, its id and its connection.
\<close>

definition bootstrap_then :: "ref \<Rightarrow> bool \<Rightarrow> server \<Rightarrow> server" where
  "bootstrap_then r ok s =
     (case map_of (store s) r of
        None \<Rightarrow> s
      | Some t \<Rightarrow>
          if \<not> ok then stopTask (taskId t) (ws t) NoHealthyCookies s
          else
            (let tm = next_timer s;
                 s1 = upd_task r (\<lambda>t. t\<lparr>intervalId := Some tm\<rparr>) s;
                 s2 = s1\<lparr>timers := timers s1 @ [(tm, taskId t)], next_timer := tm + 1\<rparr>
             in emit (WsSend (ws t) (TaskStarted (taskId t))) s2))"

text \<open>
  \<open>createRawSessions\<close>, the loop head at index \<open>i\<close>: either the next login starts and
  the loop suspends at its \<open>await\<close>, or the loop is over, the function returns whether a
  healthy handle exists, and the \<open>.then\<close> callback is queued with that value.
\<close>

definition createRawSessions_from :: "ref \<Rightarrow> nat \<Rightarrow> server \<Rightarrow> server" where
  "createRawSessions_from r i s =
     (case map_of (store s) r of
        None \<Rightarrow> s
      | Some t \<Rightarrow>
          if i < length (cookies (config t)) then
            (let s1 = createRawSession_begin r (cookies (config t) ! i) i s
             in s1\<lparr>boots := AList.update r i (boots s1)\<rparr>)
          else
            s\<lparr>boots := AList.delete r (boots s),
              microtasks := microtasks s @ [(r, getHealthySessions (rawManager t) \<noteq> [])]\<rparr>)"

definition login_done :: "ref \<Rightarrow> outcome \<Rightarrow> server \<Rightarrow> server" where
  "login_done r oc s =
     (case map_of (boots s) r of
        None \<Rightarrow> s
      | Some i \<Rightarrow> createRawSessions_from r (i + 1) (createRawSession_done r i oc s))"

text \<open>
  The same loop run with no other event in between: \<open>answers i\<close> is what the remote side
  answers for credential \<open>i\<close>. \<open>createRawSessions_upto\<close> is the state after the first
  \<open>n\<close> iterations, \<open>createRawSessions\<close> the whole call with the value it returns.
\<close>

definition createRawSessions_upto ::
  "ref \<Rightarrow> jsstring list \<Rightarrow> (nat \<Rightarrow> outcome) \<Rightarrow> nat \<Rightarrow> server \<Rightarrow> server" where
  "createRawSessions_upto r cs answers n s =
     foldl (\<lambda>s i. createRawSession r (cs ! i) i (answers i) s) s [0..<n]"

definition createRawSessions :: "ref \<Rightarrow> (nat \<Rightarrow> outcome) \<Rightarrow> server \<Rightarrow> bool \<times> server" where
  "createRawSessions r answers s =
     (case map_of (store s) r of
        None \<Rightarrow> (False, s)
      | Some t \<Rightarrow>
          (let cs = cookies (config t);
               s1 = createRawSessions_upto r cs answers (length cs) s
           in (case map_of (store s1) r of
                 None \<Rightarrow> (False, s1)
               | Some t1 \<Rightarrow> (getHealthySessions (rawManager t1) \<noteq> [], s1))))"

text \<open>
  \<open>randomFrom(arr)\<close>, where \<open>k\<close> is the value of \<open>Math.floor(Math.random() * arr.length)\<close>.
\<close>

definition randomFrom :: "'a list \<Rightarrow> nat \<Rightarrow> 'a option" where
  "randomFrom arr k = nth_js arr k"

definition compose :: "TaskMessageData \<Rightarrow> nat \<Rightarrow> nat \<Rightarrow> jsstring" where
  "compose md k1 k2 =
     js_str (randomFrom (hatersName md) k1) @ [32] @
     js_str (nth_js (messages md) (currentIndex md)) @ [32] @
     js_str (randomFrom (lastName md) k2)"

text \<open>What the wrap block at the head of \<open>runTaskLoop\<close> does to the sequencer.\<close>

definition wrap_index :: "TaskMessageData \<Rightarrow> TaskMessageData" where
  "wrap_index md =
     (if currentIndex md \<ge> length (messages md)
      then md\<lparr>currentIndex := 0, loopCount := loopCount md + 1\<rparr>
      else md)"

text \<open>
  \<open>runTaskLoop\<close> up to the call of \<open>sendMessage\<close>: \<open>None\<close> when the guard returns, else the
  task object, the composed message, the thread and the state after the wrap.
\<close>

definition runTaskLoop_compose ::
  "tid \<Rightarrow> nat \<Rightarrow> nat \<Rightarrow> server \<Rightarrow> (ref \<times> jsstring \<times> jsstring \<times> server) option" where
  "runTaskLoop_compose i k1 k2 s =
     (case map_of (tasks s) i of
        None \<Rightarrow> None
      | Some r \<Rightarrow>
          (case map_of (store s) r of
             None \<Rightarrow> None
           | Some t \<Rightarrow>
               if \<not> running (config t) then None
               else
                 (let md = messageData t;
                      md1 = wrap_index md;
                      s1 = (if currentIndex md \<ge> length (messages md) then
                              log_msg r (Loop (loopCount md1)) (upd_messageData r (\<lambda>_. md1) s)
                            else s)
                  in Some (r, compose md1 k1 k2, threadID md1, s1))))"

text \<open>\<open>runTaskLoop\<close> after \<open>sendMessage\<close> has returned \<open>ok\<close>.\<close>

definition runTaskLoop_finish :: "ref \<Rightarrow> bool \<Rightarrow> server \<Rightarrow> server" where
  "runTaskLoop_finish r ok s =
     (if ok then
        (let s1 = upd_messageData r (\<lambda>md. md\<lparr>currentIndex := currentIndex md + 1\<rparr>) s
         in s1\<lparr>totalSent := totalSent s1 + 1\<rparr>)
      else s)"

text \<open>One tick run from start to end with no other event in between.\<close>

definition runTaskLoop :: "tid \<Rightarrow> nat \<Rightarrow> nat \<Rightarrow> (nat \<Rightarrow> bool) \<Rightarrow> server \<Rightarrow> server" where
  "runTaskLoop i k1 k2 ok s =
     (case runTaskLoop_compose i k1 k2 s of
        None \<Rightarrow> s
      | Some (r, finalMsg, th, s1) \<Rightarrow>
          (case sendMessage r finalMsg th ok s1 of (delivered, s2) \<Rightarrow> runTaskLoop_finish r delivered s2))"

text \<open>
  The tick as the event loop sees it. With no healthy handle \<open>sendMessage\<close> returns at
  once and the tick is over; otherwise the call stays in flight with its snapshot of
  handles, and \<open>send_done\<close> is its return. The effects of the sends of one call are
  recorded together at its return.
\<close>

definition runTaskLoop_begin :: "tid \<Rightarrow> nat \<Rightarrow> nat \<Rightarrow> server \<Rightarrow> server" where
  "runTaskLoop_begin i k1 k2 s =
     (case runTaskLoop_compose i k1 k2 s of
        None \<Rightarrow> s
      | Some (r, finalMsg, th, s1) \<Rightarrow>
          (case map_of (store s1) r of
             None \<Rightarrow> s1
           | Some t \<Rightarrow>
               (let snapshot = getHealthySessions (rawManager t) in
                if snapshot = [] then runTaskLoop_finish r False s1
                else s1\<lparr>inflight := inflight s1 @ [(r, snapshot, finalMsg, th)]\<rparr>)))"

definition send_done :: "nat \<Rightarrow> (nat \<Rightarrow> bool) \<Rightarrow> server \<Rightarrow> server" where
  "send_done j ok s =
     (if j < length (inflight s) then
        (case inflight s ! j of
           (r, snapshot, finalMsg, th) \<Rightarrow>
             (let s1 = s\<lparr>inflight := take j (inflight s) @ drop (Suc j) (inflight s)\<rparr>
              in case sendMessage_loop r finalMsg th ok 0 snapshot s1 of
                   (delivered, s2) \<Rightarrow> runTaskLoop_finish r delivered s2))
      else s)"

section \<open>Task control\<close>

text \<open>
  The payload of a \<open>start\<close> message. A field is \<open>None\<close> when it is not a string, and then
  the method call on it throws; \<open>d_delay\<close> is the value of \<open>parseInt(data.delay)\<close>.
\<close>

record start_data =
  cookieContent :: "jsstring option"
  messageContent :: "jsstring option"
  d_threadID :: "jsstring option"
  d_delay :: "int option"
  d_hatersName :: "jsstring option"
  lastHereName :: "jsstring option"

datatype error = TypeError

definition startTask :: "ws_id \<Rightarrow> start_data \<Rightarrow> tid \<Rightarrow> server \<Rightarrow> error + server" where
  "startTask w d uuid s =
     (case cookieContent d of None \<Rightarrow> Inl TypeError | Some cc \<Rightarrow>
      case messageContent d of None \<Rightarrow> Inl TypeError | Some mc \<Rightarrow>
      case d_threadID d of None \<Rightarrow> Inl TypeError | Some th \<Rightarrow>
      case d_hatersName d of None \<Rightarrow> Inl TypeError | Some hn \<Rightarrow>
      case lastHereName d of None \<Rightarrow> Inl TypeError | Some lh \<Rightarrow>
        (let cs = split_trim_filter 10 cc;
             ms = split_trim_filter 10 mc;
             thread = trim th;
             dl = parseInt_or_10 (d_delay d);
             haters = split_trim_filter 44 hn;
             lastNames = split_trim_filter 44 lh
         in if \<not> digits_only thread then Inr (emit (WsSend w InvalidThreadID) s)
            else
              (let r = next_ref s;
                   t = \<lparr>taskId = uuid, config = TaskConfig_new dl cs,
                        messageData = TaskMessageData_new thread ms haters lastNames,
                        rawManager = RawSessionManager_new w uuid (length cs),
                        intervalId = None, ws = w\<rparr>;
                   s1 = s\<lparr>store := AList.update r t (store s), next_ref := r + 1\<rparr>;
                   s2 = s1\<lparr>tasks := AList.update uuid r (tasks s1)\<rparr>;
                   s3 = s2\<lparr>activeTasks := length (tasks s2)\<rparr>;
                   s4 = log_msg r (TaskStartedLog uuid) s3
               in Inr (createRawSessions_from r 0 s4))))"

section \<open>The message handler and the event loop\<close>

text \<open>
  An inbound frame after \<open>JSON.parse\<close>: not JSON, the value \<open>null\<close> (reading its \<open>type\<close>
  throws), one of the three kinds, or anything else. The id of \<open>stop_by_id\<close> is \<open>None\<close>
  when it is not a string.
\<close>

datatype inbound =
    Unparsable
  | JsonNull
  | Start start_data
  | StopById "tid option"
  | Monitor
  | OtherType

definition monitor_data :: "int \<Rightarrow> server \<Rightarrow> ws_msg" where
  "monitor_data now s = MonitorData ((now - startTime s) div 1000) (activeTasks s) (totalSent s)"

text \<open>
  The handler of \<open>message\<close>, given what \<open>uuidv4()\<close> and \<open>Date.now()\<close> return. What it
  throws reaches the handler of \<open>uncaughtException\<close>, which prints a line.
\<close>

definition on_message :: "ws_id \<Rightarrow> inbound \<Rightarrow> tid \<Rightarrow> int \<Rightarrow> server \<Rightarrow> server" where
  "on_message w msg uuid now s =
     (case msg of
        Unparsable \<Rightarrow> s
      | JsonNull \<Rightarrow> emit ConsoleError s
      | Start d \<Rightarrow> (case startTask w d uuid s of Inl e \<Rightarrow> emit ConsoleError s | Inr s' \<Rightarrow> s')
      | StopById k \<Rightarrow> (case k of None \<Rightarrow> s | Some i \<Rightarrow> stopTask i w Stopped s)
      | Monitor \<Rightarrow> emit (WsSend w (monitor_data now s)) s
      | OtherType \<Rightarrow> s)"

text \<open>
  The events of the process: a frame arrives, the remote side answers the login in
  flight of a bootstrap, the oldest pending \<open>setTimeout(..., 0)\<close> callback runs, an
  interval fires (with the two random picks of the tick), a \<open>sendMessage\<close> in flight
  returns, a connection opens or closes. An event that is not enabled changes nothing.
  After the handler of an event the queued \<open>.then\<close> callbacks run, before any other event.
\<close>

datatype event =
    Message ws_id inbound tid int
  | LoginDone ref outcome
  | TimeoutFires
  | Tick timer nat nat
  | SendDone nat "nat \<Rightarrow> bool"
  | WsOpened ws_id
  | WsClosed ws_id

fun handler :: "server \<Rightarrow> event \<Rightarrow> server" where
  "handler s (Message w msg uuid now) = on_message w msg uuid now s"
| "handler s (LoginDone r oc) = login_done r oc s"
| "handler s TimeoutFires =
     (case timeouts s of
        [] \<Rightarrow> s
      | (i, w, rsn) # rest \<Rightarrow> stopTask i w rsn (s\<lparr>timeouts := rest\<rparr>))"
| "handler s (Tick tm k1 k2) =
     (case map_of (timers s) tm of
        None \<Rightarrow> s
      | Some i \<Rightarrow> runTaskLoop_begin i k1 k2 s)"
| "handler s (SendDone j ok) = send_done j ok s"
| "handler s (WsOpened w) = s\<lparr>ws_open := (ws_open s)(w := True)\<rparr>"
| "handler s (WsClosed w) = s\<lparr>ws_open := (ws_open s)(w := False)\<rparr>"

definition drain :: "server \<Rightarrow> server" where
  "drain s = foldl (\<lambda>s (r, ok). bootstrap_then r ok s) (s\<lparr>microtasks := []\<rparr>) (microtasks s)"

definition step :: "server \<Rightarrow> event \<Rightarrow> server" where
  "step s ev = drain (handler s ev)"

definition run :: "server \<Rightarrow> event list \<Rightarrow> server" where
  "run s evs = foldl step s evs"

definition init :: "int \<Rightarrow> server" where
  "init t0 =
     \<lparr>store = [], next_ref = 0, tasks = [], startTime = t0, activeTasks = 0, totalSent = 0,
      timers = [], next_timer = 0, timeouts = [], boots = [], inflight = [], microtasks = [],
      ws_open = (\<lambda>_. False), out = []\<rparr>"

section \<open>Observations\<close>

text \<open>The sequencer of task object \<open>r\<close>, and the remote sends among the effects, in order.\<close>

definition messageData_of :: "server \<Rightarrow> ref \<Rightarrow> TaskMessageData option" where
  "messageData_of s r = map_option messageData (map_of (store s) r)"

fun remote_sends :: "effect list \<Rightarrow> (handle \<times> jsstring \<times> jsstring) list" where
  "remote_sends [] = []"
| "remote_sends (RemoteSend a m th # xs) = (a, m, th) # remote_sends xs"
| "remote_sends (x # xs) = remote_sends xs"

text \<open>
  A credential fails when its login or its thread probe fails; \<open>failures answers n\<close>
  counts the failing ones among the first \<open>n\<close>. \<open>breach_reports\<close> counts the console
  lines that report the breach of the threshold.
\<close>

fun is_failure :: "outcome \<Rightarrow> bool" where
  "is_failure LoginFailed = True"
| "is_failure NoThreadAccess = True"
| "is_failure (Ready a) = False"

definition failures :: "(nat \<Rightarrow> outcome) \<Rightarrow> nat \<Rightarrow> nat" where
  "failures answers n = length (filter (\<lambda>i. is_failure (answers i)) [0..<n])"

fun breach_reports :: "effect list \<Rightarrow> nat" where
  "breach_reports [] = 0"
| "breach_reports (ConsoleLog i (TooManyUnhealthy u n) # xs) = Suc (breach_reports xs)"
| "breach_reports (x # xs) = breach_reports xs"

text \<open>The registry counter agrees with the registry, whose keys are pairwise distinct.\<close>

definition registry_inv :: "server \<Rightarrow> bool" where
  "registry_inv s = (activeTasks s = length (tasks s) \<and> distinct (map fst (tasks s)))"

text \<open>Two states with the same registry and the same registry counter.\<close>

definition same_registry :: "server \<Rightarrow> server \<Rightarrow> bool" where
  "same_registry s s' = (tasks s' = tasks s \<and> activeTasks s' = activeTasks s)"

section \<open>Concrete inputs\<close>

text \<open>Answers of the remote side: every send fails, every send succeeds, only the second does.\<close>

definition never :: "nat \<Rightarrow> bool" where
  "never k = False"

definition always :: "nat \<Rightarrow> bool" where
  "always k = True"

definition second_only :: "nat \<Rightarrow> bool" where
  "second_only k = (k = 1)"

definition all_fail :: "nat \<Rightarrow> outcome" where
  "all_fail i = LoginFailed"

text \<open>Start requests: one credential, two credentials, and one whose three lists are blank.\<close>

definition request_one_cookie :: start_data where
  "request_one_cookie =
     \<lparr>cookieContent = Some (ascii ''c1''), messageContent = Some (ascii ''hi\<newline>bye''),
      d_threadID = Some (ascii ''123''), d_delay = Some 5,
      d_hatersName = Some (ascii ''A''), lastHereName = Some (ascii ''Z'')\<rparr>"

definition request_two_cookies :: start_data where
  "request_two_cookies =
     \<lparr>cookieContent = Some (ascii ''c1\<newline>c2''), messageContent = Some (ascii ''hi\<newline>bye''),
      d_threadID = Some (ascii ''123''), d_delay = Some 5,
      d_hatersName = Some (ascii ''A''), lastHereName = Some (ascii ''Z'')\<rparr>"



text \<open>
  A task with two healthy handles that has delivered its two messages, so that its index
  stands at the length of the list: the state after the events of \<open>two_deliveries\<close>, its
  effects dropped.
\<close>

definition two_deliveries :: "event list" where
  "two_deliveries =
     [WsOpened 1,
      Message 1 (Start request_two_cookies) (ascii ''t1'') 0,
      LoginDone 0 (Ready 7), LoginDone 0 (Ready 8),
      Tick 0 0 0, SendDone 0 always,
      Tick 0 0 0, SendDone 0 always]"

definition example_task :: task where
  "example_task =
     \<lparr>taskId = ascii ''t1'',
      config = \<lparr>delay = 5, running = True, cookies = [ascii ''c1'', ascii ''c2'']\<rparr>,
      messageData =
        \<lparr>threadID = ascii ''123'', messages = [ascii ''hi'', ascii ''bye''],
         hatersName = [ascii ''A''], lastName = [ascii ''Z''], currentIndex = 2, loopCount = 0\<rparr>,
      rawManager =
        \<lparr>m_ws = 1, m_taskId = ascii ''t1'', totalSessions = 2,
         sessions = [(0, \<lparr>api = 7, healthy = True\<rparr>), (1, \<lparr>api = 8, healthy = True\<rparr>)],
         sessionQueue = [0, 1], unhealthyCount = 0, unhealthyThreshold = 1\<rparr>,
      intervalId = Some 0, ws = 1\<rparr>"

definition example_server :: server where
  "example_server =
     \<lparr>store = [(0, example_task)], next_ref = 1, tasks = [(ascii ''t1'', 0)], startTime = 0,
      activeTasks = 1, totalSent = 2, timers = [(0, ascii ''t1'')], next_timer = 1,
      timeouts = [], boots = [], inflight = [], microtasks = [],
      ws_open = (\<lambda>w. False)(1 := True), out = []\<rparr>"

text \<open>A stop request that arrives while the only login of a bootstrap is in flight.\<close>

definition stop_during_bootstrap :: "event list" where
  "stop_during_bootstrap =
     [WsOpened 1,
      Message 1 (Start request_one_cookie) (ascii ''t1'') 0,
      Message 1 (StopById (Some (ascii ''t1''))) [] 0,
      LoginDone 0 (Ready 7)]"

text \<open>Two credentials that both fail their login, and the task object before its bootstrap.\<close>

definition both_fail :: "event list" where
  "both_fail =
     [WsOpened 1,
      Message 1 (Start request_two_cookies) (ascii ''t1'') 0,
      LoginDone 0 LoginFailed, LoginDone 0 LoginFailed]"

definition fresh_task :: task where
  "fresh_task =
     \<lparr>taskId = ascii ''t1'',
      config = \<lparr>delay = 5, running = True, cookies = [ascii ''c1'', ascii ''c2'']\<rparr>,
      messageData =
        \<lparr>threadID = ascii ''123'', messages = [ascii ''hi'', ascii ''bye''],
         hatersName = [ascii ''A''], lastName = [ascii ''Z''], currentIndex = 0, loopCount = 0\<rparr>,
      rawManager = RawSessionManager_new 1 (ascii ''t1'') 2,
      intervalId = None, ws = 1\<rparr>"

definition fresh_server :: server where
  "fresh_server =
     \<lparr>store = [(0, fresh_task)], next_ref = 1, tasks = [(ascii ''t1'', 0)], startTime = 0,
      activeTasks = 1, totalSent = 0, timers = [], next_timer = 0,
      timeouts = [], boots = [], inflight = [], microtasks = [],
      ws_open = (\<lambda>w. False)(1 := True), out = []\<rparr>"


section \<open>What the primitive updates leave alone\<close>

lemma emit_fields [simp]:
  "store (emit x s) = store s" "next_ref (emit x s) = next_ref s" "tasks (emit x s) = tasks s"
  "startTime (emit x s) = startTime s" "activeTasks (emit x s) = activeTasks s"
  "totalSent (emit x s) = totalSent s" "timers (emit x s) = timers s"
  "next_timer (emit x s) = next_timer s" "timeouts (emit x s) = timeouts s"
  "boots (emit x s) = boots s" "inflight (emit x s) = inflight s"
  "microtasks (emit x s) = microtasks s" "ws_open (emit x s) = ws_open s"
  "out (emit x s) = out s @ [x]"
  by (simp_all add: emit_def)

lemma upd_task_fields [simp]:
  "store (upd_task r f s) = AList.map_entry r f (store s)"
  "next_ref (upd_task r f s) = next_ref s" "tasks (upd_task r f s) = tasks s"
  "startTime (upd_task r f s) = startTime s" "activeTasks (upd_task r f s) = activeTasks s"
  "totalSent (upd_task r f s) = totalSent s" "timers (upd_task r f s) = timers s"
  "next_timer (upd_task r f s) = next_timer s" "timeouts (upd_task r f s) = timeouts s"
  "boots (upd_task r f s) = boots s" "inflight (upd_task r f s) = inflight s"
  "microtasks (upd_task r f s) = microtasks s" "ws_open (upd_task r f s) = ws_open s"
  "out (upd_task r f s) = out s"
  by (simp_all add: upd_task_def)

lemma log_msg_fields [simp]:
  "store (log_msg r m s) = store s" "next_ref (log_msg r m s) = next_ref s"
  "tasks (log_msg r m s) = tasks s" "startTime (log_msg r m s) = startTime s"
  "activeTasks (log_msg r m s) = activeTasks s" "totalSent (log_msg r m s) = totalSent s"
  "timers (log_msg r m s) = timers s" "next_timer (log_msg r m s) = next_timer s"
  "timeouts (log_msg r m s) = timeouts s" "boots (log_msg r m s) = boots s"
  "inflight (log_msg r m s) = inflight s" "microtasks (log_msg r m s) = microtasks s"
  "ws_open (log_msg r m s) = ws_open s"
  by (simp_all add: log_msg_def Let_def split: option.splits)

lemma map_of_map_entry_same:
  "map_of (AList.map_entry r f al) r = map_option f (map_of al r)"
  by (simp add: map_of_map_entry split: option.splits)


section \<open>The unhealthy threshold\<close>

lemma floor_three_quarters: "nat \<lfloor>0.75 * real n\<rfloor> = (n * 3) div 4"
proof -
  have "0.75 * real n = real (n * 3) / real 4" by simp
  then have "\<lfloor>0.75 * real n\<rfloor> = int ((n * 3) div 4)"
    by (simp only: floor_divide_of_nat_eq)
  then show ?thesis by simp
qed


text \<open>
  Claim C6. For every credential list of length \<open>n\<close>, the unhealthy threshold of the
  session pool built for it equals \<open>max(1, floor(0.75 * n))\<close>, the floor taken over the
  reals.
\<close>

theorem threshold_formula:
  "unhealthyThreshold (RawSessionManager_new w i n) = max 1 (nat \<lfloor>0.75 * real n\<rfloor>)"
  unfolding floor_three_quarters by (simp add: RawSessionManager_new_def)

theorem threshold_formula_witness:
  "unhealthyThreshold (RawSessionManager_new 1 (ascii ''u'') 4) = 3
   \<and> unhealthyThreshold (RawSessionManager_new 1 (ascii ''u'') 1) = 1"
  using threshold_formula [of 1 "ascii ''u''" 4] threshold_formula [of 1 "ascii ''u''" 1]
  by simp



section \<open>Stopping a task\<close>

lemma tasks_stopTask:
  "map_of (tasks s) i = Some r \<Longrightarrow> map_of (store s) r = Some t \<Longrightarrow>
   tasks (stopTask i w rsn s) = AList.delete i (tasks s)
   \<and> activeTasks (stopTask i w rsn s) = length (AList.delete i (tasks s))"
  by (simp add: stopTask_def Let_def split: option.splits)



lemma stopTask_absent:
  "map_of (tasks s) i = None \<Longrightarrow> stopTask i w rsn s = s"
  by (simp add: stopTask_def)

lemma stopTask_fixed:
  assumes "stopTask i w rsn s = s"
  shows "stopTask i w' rsn' s = s"
proof (cases "map_of (tasks s) i")
  case None
  then show ?thesis by (simp add: stopTask_def)
next
  case (Some r)
  show ?thesis
  proof (cases "map_of (store s) r")
    case None
    with Some show ?thesis by (simp add: stopTask_def)
  next
    case (Some t)
    with \<open>map_of (tasks s) i = Some r\<close>
    have e: "tasks (stopTask i w rsn s) = AList.delete i (tasks s)"
      using tasks_stopTask by blast
    have "map_of (tasks (stopTask i w rsn s)) i = None"
      unfolding e by (simp only: delete_conv fun_upd_same)
    then have "map_of (tasks s) i = None"
      by (simp only: assms)
    with \<open>map_of (tasks s) i = Some r\<close> show ?thesis by simp
  qed
qed



lemma stopTask_absent_after:
  "map_of (tasks (stopTask i w rsn s)) i = None \<or> stopTask i w rsn s = s"
  by (simp add: stopTask_def Let_def delete_conv split: option.splits)


text \<open>
  Claim C9. Calling \<open>stopTask\<close> with a task id that is not in the registry changes
  nothing of the state (registry, counters, timers, task objects, output), also when the
  call comes through the message handler, which then prints no error line; and stopping
  the same id a second time, with any connection and reason, changes nothing more.
\<close>

theorem stopTask_absent_noop:
  "(map_of (tasks s) i = None \<longrightarrow>
      stopTask i w rsn s = s \<and> on_message w (StopById (Some i)) u now s = s)
   \<and> stopTask i w' rsn' (stopTask i w rsn s) = stopTask i w rsn s"
proof (intro conjI impI)
  assume a: "map_of (tasks s) i = None"
  then show "stopTask i w rsn s = s" by (rule stopTask_absent)
  from a show "on_message w (StopById (Some i)) u now s = s"
    by (simp add: on_message_def stopTask_absent)
next
  show "stopTask i w' rsn' (stopTask i w rsn s) = stopTask i w rsn s"
  proof (cases "stopTask i w rsn s = s")
    case True
    have "stopTask i w' rsn' s = s"
      by (rule stopTask_fixed [OF True])
    then show ?thesis by (simp only: True)
  next
    case False
    then have "map_of (tasks (stopTask i w rsn s)) i = None"
      using stopTask_absent_after by blast
    then show ?thesis
      by (rule stopTask_absent)
  qed
qed



theorem stopTask_absent_noop_witness:
  "map_of (tasks (init 0)) (ascii ''x'') = None
   \<and> stopTask (ascii ''x'') 1 Stopped (init 0) = init 0
   \<and> on_message 1 (StopById (Some (ascii ''x''))) [] 0 (init 0) = init 0"
  using stopTask_absent_noop [of "init 0" "ascii ''x''" 1 Stopped "[]" 0]
  by (simp add: init_def)

section \<open>The tick\<close>

text \<open>
  Claim C10. A tick whose task id is absent from the registry, or whose task has its
  running flag cleared, is a no-op: nothing is composed, nothing is sent, and the state
  (with it the sequencer index, the loop counter and the delivered counter) is unchanged.
\<close>

theorem runTaskLoop_guard_noop:
  "map_of (tasks s) i = None
   \<or> (\<exists>r t. map_of (tasks s) i = Some r \<and> map_of (store s) r = Some t \<and> \<not> running (config t))
   \<Longrightarrow> runTaskLoop_compose i k1 k2 s = None
       \<and> runTaskLoop i k1 k2 ok s = s
       \<and> runTaskLoop_begin i k1 k2 s = s"
  by (auto simp: runTaskLoop_compose_def runTaskLoop_def runTaskLoop_begin_def)


section \<open>Evaluating concrete inputs\<close>

lemmas eval_defs = run_def step_def drain_def init_def on_message_def startTask_def
  stopTask_def login_done_def createRawSessions_from_def createRawSession_begin_def
  createRawSession_done_def checkStopCondition_def bootstrap_then_def log_msg_def emit_def
  upd_task_def upd_manager_def upd_messageData_def getHealthySessions_def
  split_trim_filter_def trim_def is_ws_def digits_only_def is_digit_def ascii_def
  parseInt_or_10_def TaskConfig_new_def TaskMessageData_new_def RawSessionManager_new_def
  runTaskLoop_begin_def runTaskLoop_compose_def runTaskLoop_finish_def runTaskLoop_def
  send_done_def sendMessage_def wrap_index_def compose_def randomFrom_def nth_js_def js_str_def
  monitor_data_def messageData_of_def never_def always_def second_only_def all_fail_def
  AList.update.simps AList.delete_eq AList.map_entry.simps Let_def

lemma example_server_reachable:
  "example_server = (run (init 0) two_deliveries)\<lparr>out := []\<rparr>"
  by (simp add: example_server_def example_task_def two_deliveries_def request_two_cookies_def
      eval_defs)

text \<open>
  The interval left behind by a stop during the bootstrap fires for a task id that is no
  longer registered, and the tick does nothing.
\<close>

theorem runTaskLoop_guard_noop_witness:
  "map_of (tasks (run (init 0) stop_during_bootstrap)) (ascii ''t1'') = None
   \<and> map_of (timers (run (init 0) stop_during_bootstrap)) 0 = Some (ascii ''t1'')
   \<and> runTaskLoop_compose (ascii ''t1'') 0 0 (run (init 0) stop_during_bootstrap) = None
   \<and> runTaskLoop (ascii ''t1'') 0 0 always (run (init 0) stop_during_bootstrap)
       = run (init 0) stop_during_bootstrap
   \<and> handler (run (init 0) stop_during_bootstrap) (Tick 0 0 0) = run (init 0) stop_during_bootstrap"
proof -
  have h: "map_of (tasks (run (init 0) stop_during_bootstrap)) (ascii ''t1'') = None"
    "map_of (timers (run (init 0) stop_during_bootstrap)) 0 = Some (ascii ''t1'')"
    by (simp_all add: stop_during_bootstrap_def request_one_cookie_def eval_defs)
  from runTaskLoop_guard_noop [of "run (init 0) stop_during_bootstrap" "ascii ''t1''" 0 0 always] h
  show ?thesis by simp
qed

section \<open>Dispatch: first success wins\<close>

lemma remote_sends_append: "remote_sends (xs @ ys) = remote_sends xs @ remote_sends ys"
  by (induction xs rule: remote_sends.induct) simp_all

lemma remote_sends_log_msg [simp]: "remote_sends (out (log_msg r m s)) = remote_sends (out s)"
  by (cases "map_of (store s) r") (simp_all add: log_msg_def Let_def remote_sends_append)

lemma sendMessage_loop_fields [simp]:
  "store (snd (sendMessage_loop r msg th ok k ss s)) = store s"
  "next_ref (snd (sendMessage_loop r msg th ok k ss s)) = next_ref s"
  "tasks (snd (sendMessage_loop r msg th ok k ss s)) = tasks s"
  "startTime (snd (sendMessage_loop r msg th ok k ss s)) = startTime s"
  "activeTasks (snd (sendMessage_loop r msg th ok k ss s)) = activeTasks s"
  "totalSent (snd (sendMessage_loop r msg th ok k ss s)) = totalSent s"
  "timers (snd (sendMessage_loop r msg th ok k ss s)) = timers s"
  "next_timer (snd (sendMessage_loop r msg th ok k ss s)) = next_timer s"
  "timeouts (snd (sendMessage_loop r msg th ok k ss s)) = timeouts s"
  "boots (snd (sendMessage_loop r msg th ok k ss s)) = boots s"
  "inflight (snd (sendMessage_loop r msg th ok k ss s)) = inflight s"
  "microtasks (snd (sendMessage_loop r msg th ok k ss s)) = microtasks s"
  "ws_open (snd (sendMessage_loop r msg th ok k ss s)) = ws_open s"
  by (induction ss arbitrary: k s; simp add: Let_def)+

lemma sendMessage_fields [simp]:
  "store (snd (sendMessage r msg th ok s)) = store s"
  "next_ref (snd (sendMessage r msg th ok s)) = next_ref s"
  "tasks (snd (sendMessage r msg th ok s)) = tasks s"
  "startTime (snd (sendMessage r msg th ok s)) = startTime s"
  "activeTasks (snd (sendMessage r msg th ok s)) = activeTasks s"
  "totalSent (snd (sendMessage r msg th ok s)) = totalSent s"
  "timers (snd (sendMessage r msg th ok s)) = timers s"
  "next_timer (snd (sendMessage r msg th ok s)) = next_timer s"
  "timeouts (snd (sendMessage r msg th ok s)) = timeouts s"
  "boots (snd (sendMessage r msg th ok s)) = boots s"
  "inflight (snd (sendMessage r msg th ok s)) = inflight s"
  "microtasks (snd (sendMessage r msg th ok s)) = microtasks s"
  "ws_open (snd (sendMessage r msg th ok s)) = ws_open s"
  by (simp_all add: sendMessage_def Let_def split: option.splits)

lemma sendMessage_loop_spec:
  "sendMessage_loop r msg th ok k ss s = (d, s') \<Longrightarrow>
     (\<exists>n<length ss. ok (k + n) \<and> (\<forall>j<n. \<not> ok (k + j)) \<and> d
         \<and> remote_sends (out s') = remote_sends (out s) @ map (\<lambda>a. (a, msg, th)) (take (Suc n) ss))
     \<or> ((\<forall>j<length ss. \<not> ok (k + j)) \<and> \<not> d
         \<and> remote_sends (out s') = remote_sends (out s) @ map (\<lambda>a. (a, msg, th)) ss)"
proof (induction ss arbitrary: k s)
  case Nil
  then show ?case by simp
next
  case (Cons a ss)
  show ?case
  proof (cases "ok k")
    case True
    with Cons.prems have "d" and "s' = log_msg r MessageSent (emit (RemoteSend a msg th) s)"
      by (simp_all add: Let_def)
    then have "remote_sends (out s') = remote_sends (out s) @ [(a, msg, th)]"
      by (simp add: remote_sends_append)
    with True \<open>d\<close> have "0 < length (a # ss) \<and> ok (k + 0) \<and> (\<forall>j<0. \<not> ok (k + j)) \<and> d
         \<and> remote_sends (out s') = remote_sends (out s) @ map (\<lambda>a. (a, msg, th)) (take (Suc 0) (a # ss))"
      by simp
    then show ?thesis by blast
  next
    case False
    let ?s1 = "log_msg r SendFailed (emit (RemoteSend a msg th) s)"
    from False Cons.prems have rec: "sendMessage_loop r msg th ok (Suc k) ss ?s1 = (d, s')"
      by (simp add: Let_def)
    have s1: "remote_sends (out ?s1) = remote_sends (out s) @ [(a, msg, th)]"
      by (simp add: remote_sends_append)
    from Cons.IH [OF rec] show ?thesis
    proof
      assume "\<exists>n<length ss. ok (Suc k + n) \<and> (\<forall>j<n. \<not> ok (Suc k + j)) \<and> d
         \<and> remote_sends (out s') = remote_sends (out ?s1) @ map (\<lambda>a. (a, msg, th)) (take (Suc n) ss)"
      then obtain n where n: "n < length ss" "ok (Suc k + n)" "\<forall>j<n. \<not> ok (Suc k + j)" "d"
         "remote_sends (out s') = remote_sends (out ?s1) @ map (\<lambda>a. (a, msg, th)) (take (Suc n) ss)"
        by blast
      have "\<forall>j<Suc n. \<not> ok (k + j)"
      proof (intro allI impI)
        fix j assume "j < Suc n"
        show "\<not> ok (k + j)"
        proof (cases j)
          case 0
          with False show ?thesis by simp
        next
          case (Suc j')
          with \<open>j < Suc n\<close> n(3) show ?thesis by simp
        qed
      qed
      moreover from n(5) s1 have "remote_sends (out s') =
          remote_sends (out s) @ map (\<lambda>a. (a, msg, th)) (take (Suc (Suc n)) (a # ss))"
        by simp
      ultimately have "Suc n < length (a # ss) \<and> ok (k + Suc n) \<and> (\<forall>j<Suc n. \<not> ok (k + j)) \<and> d
         \<and> remote_sends (out s') = remote_sends (out s) @ map (\<lambda>a. (a, msg, th)) (take (Suc (Suc n)) (a # ss))"
        using n by simp
      then show ?thesis by blast
    next
      assume a2: "(\<forall>j<length ss. \<not> ok (Suc k + j)) \<and> \<not> d
         \<and> remote_sends (out s') = remote_sends (out ?s1) @ map (\<lambda>a. (a, msg, th)) ss"
      have "\<forall>j<length (a # ss). \<not> ok (k + j)"
      proof (intro allI impI)
        fix j assume "j < length (a # ss)"
        show "\<not> ok (k + j)"
        proof (cases j)
          case 0
          with False show ?thesis by simp
        next
          case (Suc j')
          with \<open>j < length (a # ss)\<close> a2 show ?thesis by simp
        qed
      qed
      with a2 s1 show ?thesis by simp
    qed
  qed
qed

text \<open>
  Claim C7. For every call of \<open>sendMessage\<close> on a task object: with no healthy handle it
  returns \<open>false\<close> at once and the state is unchanged; otherwise the handles are tried in
  the order of \<open>getHealthySessions\<close>, and either some send succeeds, the first one that does
  ends the call with \<open>true\<close> and nothing after it is tried, or every handle is tried, all
  fail, and the call returns \<open>false\<close>.
\<close>

theorem sendMessage_first_success:
  assumes "map_of (store s) r = Some t"
    and "sendMessage r msg th ok s = (delivered, s')"
  shows "(getHealthySessions (rawManager t) = [] \<and> \<not> delivered \<and> s' = s)
    \<or> (\<exists>n<length (getHealthySessions (rawManager t)). ok n \<and> (\<forall>j<n. \<not> ok j) \<and> delivered
         \<and> remote_sends (out s') = remote_sends (out s)
              @ map (\<lambda>a. (a, msg, th)) (take (Suc n) (getHealthySessions (rawManager t))))
    \<or> (getHealthySessions (rawManager t) \<noteq> [] \<and> (\<forall>j<length (getHealthySessions (rawManager t)). \<not> ok j)
         \<and> \<not> delivered
         \<and> remote_sends (out s') = remote_sends (out s)
              @ map (\<lambda>a. (a, msg, th)) (getHealthySessions (rawManager t)))"
proof (cases "getHealthySessions (rawManager t) = []")
  case True
  with assms show ?thesis by (simp add: sendMessage_def)
next
  case False
  with assms have "sendMessage_loop r msg th ok 0 (getHealthySessions (rawManager t)) s = (delivered, s')"
    by (simp add: sendMessage_def)
  from sendMessage_loop_spec [OF this] False show ?thesis by simp
qed

theorem sendMessage_first_success_witness:
  "map_of (store example_server) 0 = Some example_task
   \<and> getHealthySessions (rawManager example_task) = [7, 8]
   \<and> fst (sendMessage 0 (ascii ''A hi Z'') (ascii ''123'') second_only example_server)
   \<and> remote_sends (out (snd (sendMessage 0 (ascii ''A hi Z'') (ascii ''123'') second_only example_server)))
       = [(7, ascii ''A hi Z'', ascii ''123''), (8, ascii ''A hi Z'', ascii ''123'')]"
proof -
  have h: "map_of (store example_server) 0 = Some example_task"
    by (simp add: example_server_def)
  have g: "getHealthySessions (rawManager example_task) = [7, 8]"
    by (simp add: example_task_def getHealthySessions_def)
  have o: "remote_sends (out example_server) = []"
    by (simp add: example_server_def)
  have a: "second_only 1" "\<not> second_only 0"
    by (simp_all add: second_only_def)
  from sendMessage_first_success [OF h, of "ascii ''A hi Z''" "ascii ''123''" second_only
        "fst (sendMessage 0 (ascii ''A hi Z'') (ascii ''123'') second_only example_server)"
        "snd (sendMessage 0 (ascii ''A hi Z'') (ascii ''123'') second_only example_server)"]
  have "fst (sendMessage 0 (ascii ''A hi Z'') (ascii ''123'') second_only example_server)
   \<and> remote_sends (out (snd (sendMessage 0 (ascii ''A hi Z'') (ascii ''123'') second_only example_server)))
       = [(7, ascii ''A hi Z'', ascii ''123''), (8, ascii ''A hi Z'', ascii ''123'')]"
    using a by (auto simp: g o less_Suc_eq)
  with h g show ?thesis by simp
qed

section \<open>The sequencer\<close>

lemma wrap_index_fields [simp]:
  "threadID (wrap_index md) = threadID md" "messages (wrap_index md) = messages md"
  "hatersName (wrap_index md) = hatersName md" "lastName (wrap_index md) = lastName md"
  by (simp_all add: wrap_index_def)

lemma compose_wrap_twice: "compose (wrap_index (wrap_index md)) k1 k2 = compose (wrap_index md) k1 k2"
  by (simp add: compose_def wrap_index_def)

lemma runTaskLoop_compose_result:
  assumes "map_of (tasks s) i = Some r" and "map_of (store s) r = Some t" and "running (config t)"
  shows "\<exists>s1. runTaskLoop_compose i k1 k2 s
            = Some (r, compose (wrap_index (messageData t)) k1 k2, threadID (messageData t), s1)
          \<and> tasks s1 = tasks s
          \<and> map_of (store s1) r = Some (t\<lparr>messageData := wrap_index (messageData t)\<rparr>)"
proof (cases "currentIndex (messageData t) \<ge> length (messages (messageData t))")
  case True
  with assms show ?thesis
    by (simp add: runTaskLoop_compose_def Let_def upd_messageData_def map_of_map_entry_same)
next
  case False
  then have "wrap_index (messageData t) = messageData t"
    by (simp add: wrap_index_def)
  with False assms show ?thesis
    by (simp add: runTaskLoop_compose_def Let_def)
qed

lemma runTaskLoop_compose_Some:
  assumes "runTaskLoop_compose i k1 k2 s = Some (r, msg, th, s1)"
  shows "\<exists>t. map_of (tasks s) i = Some r \<and> map_of (store s) r = Some t \<and> running (config t)"
  using assms by (auto simp: runTaskLoop_compose_def Let_def split: option.splits if_splits)

text \<open>
  Claim C5. For a registered, running task whose index equals the length of its message
  list when a tick starts to compose, the state in which the message is sent has the loop
  counter incremented by exactly 1 and the index reset to 0, and the composed message
  carries the element at index 0: the first element of the list (the word \<open>undefined\<close>
  should the list have none).
\<close>

theorem wrap_before_composition:
  assumes "map_of (tasks s) i = Some r" and "map_of (store s) r = Some t"
    and "running (config t)"
    and "currentIndex (messageData t) = length (messages (messageData t))"
  shows "\<exists>s1. runTaskLoop_compose i k1 k2 s
            = Some (r,
                js_str (randomFrom (hatersName (messageData t)) k1) @ [32] @
                (case messages (messageData t) of [] \<Rightarrow> ascii ''undefined'' | m # ms \<Rightarrow> m) @ [32] @
                js_str (randomFrom (lastName (messageData t)) k2),
                threadID (messageData t), s1)
          \<and> messageData_of s1 r
            = Some ((messageData t)\<lparr>currentIndex := 0, loopCount := loopCount (messageData t) + 1\<rparr>)"
proof -
  from assms(4) have w: "wrap_index (messageData t)
      = (messageData t)\<lparr>currentIndex := 0, loopCount := loopCount (messageData t) + 1\<rparr>"
    by (simp add: wrap_index_def)
  have c: "compose (wrap_index (messageData t)) k1 k2
      = js_str (randomFrom (hatersName (messageData t)) k1) @ [32] @
        (case messages (messageData t) of [] \<Rightarrow> ascii ''undefined'' | m # ms \<Rightarrow> m) @ [32] @
        js_str (randomFrom (lastName (messageData t)) k2)"
    unfolding w by (simp add: compose_def nth_js_def js_str_def split: list.splits)
  from runTaskLoop_compose_result [OF assms(1-3), of k1 k2]
  obtain s1 where s1: "runTaskLoop_compose i k1 k2 s
            = Some (r, compose (wrap_index (messageData t)) k1 k2, threadID (messageData t), s1)"
      "map_of (store s1) r = Some (t\<lparr>messageData := wrap_index (messageData t)\<rparr>)"
    by blast
  from s1(2) have m: "messageData_of s1 r
      = Some ((messageData t)\<lparr>currentIndex := 0, loopCount := loopCount (messageData t) + 1\<rparr>)"
    by (simp add: messageData_of_def w)
  from s1(1) have "runTaskLoop_compose i k1 k2 s
            = Some (r,
                js_str (randomFrom (hatersName (messageData t)) k1) @ [32] @
                (case messages (messageData t) of [] \<Rightarrow> ascii ''undefined'' | m # ms \<Rightarrow> m) @ [32] @
                js_str (randomFrom (lastName (messageData t)) k2),
                threadID (messageData t), s1)"
    by (simp only: c)
  with m show ?thesis by blast
qed

theorem wrap_before_composition_witness:
  "map_of (tasks example_server) (ascii ''t1'') = Some 0
   \<and> map_of (store example_server) 0 = Some example_task
   \<and> running (config example_task)
   \<and> currentIndex (messageData example_task) = length (messages (messageData example_task))
   \<and> (\<exists>s1. runTaskLoop_compose (ascii ''t1'') 0 0 example_server
             = Some (0, ascii ''A hi Z'', ascii ''123'', s1)
           \<and> messageData_of s1 0
             = Some ((messageData example_task)\<lparr>currentIndex := 0, loopCount := 1\<rparr>))"
proof -
  have h: "map_of (tasks example_server) (ascii ''t1'') = Some 0"
    "map_of (store example_server) 0 = Some example_task"
    "running (config example_task)"
    "currentIndex (messageData example_task) = length (messages (messageData example_task))"
    by (simp_all add: example_server_def example_task_def ascii_def)
  from wrap_before_composition [OF h, of 0 0] h show ?thesis
    by (simp add: example_task_def ascii_def randomFrom_def nth_js_def js_str_def)
qed

lemma runTaskLoop_finish_fields:
  "tasks (runTaskLoop_finish r ok s) = tasks s"
  "messageData_of (runTaskLoop_finish r ok s) r
     = map_option (\<lambda>md. md\<lparr>currentIndex := currentIndex md + (if ok then 1 else 0)\<rparr>) (messageData_of s r)"
  "map_of (store (runTaskLoop_finish r ok s)) r
     = map_option (\<lambda>t. t\<lparr>messageData := (messageData t)\<lparr>currentIndex := currentIndex (messageData t) + (if ok then 1 else 0)\<rparr>\<rparr>)
         (map_of (store s) r)"
  by (cases "map_of (store s) r";
      simp add: runTaskLoop_finish_def Let_def upd_messageData_def messageData_of_def map_of_map_entry_same)+

text \<open>
  Claim C4. For every tick of a registered, running task, measured from the sequencer
  state \<open>md1\<close> in which the message was composed (after the wrap block): the tick leaves
  the index at \<open>currentIndex md1 + 1\<close> if and only if \<open>sendMessage\<close> returned \<open>true\<close>, the
  loop counter is unchanged, and when \<open>sendMessage\<close> returned \<open>false\<close> the sequencer is
  \<open>md1\<close> unchanged, so that the next tick, with the same random picks, composes the same
  message again.
\<close>

theorem index_advances_iff_delivered:
  assumes "runTaskLoop_compose i k1 k2 s = Some (r, finalMsg, th, s1)"
    and "sendMessage r finalMsg th ok s1 = (delivered, s2)"
    and "messageData_of s1 r = Some md1"
  shows "\<exists>md'. runTaskLoop i k1 k2 ok s = runTaskLoop_finish r delivered s2
          \<and> messageData_of (runTaskLoop i k1 k2 ok s) r = Some md'
          \<and> (currentIndex md' = currentIndex md1 + 1) = delivered
          \<and> loopCount md' = loopCount md1
          \<and> (delivered \<or> (md' = md1
                \<and> (\<exists>s3. runTaskLoop_compose i k1 k2 (runTaskLoop i k1 k2 ok s)
                           = Some (r, finalMsg, th, s3))))"
proof -
  from runTaskLoop_compose_Some [OF assms(1)] obtain t where
    t: "map_of (tasks s) i = Some r" "map_of (store s) r = Some t" "running (config t)"
    by blast
  from runTaskLoop_compose_result [OF t, of k1 k2] assms(1)
  have f: "finalMsg = compose (wrap_index (messageData t)) k1 k2" "th = threadID (messageData t)"
    "tasks s1 = tasks s"
    "map_of (store s1) r = Some (t\<lparr>messageData := wrap_index (messageData t)\<rparr>)"
    by auto
  with assms(3) have md1: "md1 = wrap_index (messageData t)"
    by (simp add: messageData_of_def)
  from assms(2) have s2: "s2 = snd (sendMessage r finalMsg th ok s1)" by simp
  have run: "runTaskLoop i k1 k2 ok s = runTaskLoop_finish r delivered s2"
    using assms(1,2) by (simp add: runTaskLoop_def)
  have st2: "map_of (store s2) r = Some (t\<lparr>messageData := md1\<rparr>)" "tasks s2 = tasks s"
    using f md1 by (simp_all add: s2)
  then have m2: "messageData_of s2 r = Some md1"
    by (simp add: messageData_of_def)
  let ?md' = "md1\<lparr>currentIndex := currentIndex md1 + (if delivered then 1 else 0)\<rparr>"
  have a: "messageData_of (runTaskLoop i k1 k2 ok s) r = Some ?md'"
    unfolding run by (simp add: runTaskLoop_finish_fields m2)
  have b: "(currentIndex ?md' = currentIndex md1 + 1) = delivered" by simp
  have c: "loopCount ?md' = loopCount md1" by simp
  have d: "delivered \<or> (?md' = md1
                \<and> (\<exists>s3. runTaskLoop_compose i k1 k2 (runTaskLoop i k1 k2 ok s)
                           = Some (r, finalMsg, th, s3)))"
  proof (cases delivered)
    case True
    then show ?thesis by simp
  next
    case False
    then have e: "runTaskLoop i k1 k2 ok s = s2"
      unfolding run by (simp add: runTaskLoop_finish_def)
    have r2: "running (config (t\<lparr>messageData := md1\<rparr>))" using t(3) by simp
    from runTaskLoop_compose_result [of s2 i r "t\<lparr>messageData := md1\<rparr>" k1 k2] st2 t(1) r2
    obtain s3 where "runTaskLoop_compose i k1 k2 s2
        = Some (r, compose (wrap_index md1) k1 k2, threadID md1, s3)"
      by auto
    then have "runTaskLoop_compose i k1 k2 s2 = Some (r, finalMsg, th, s3)"
      by (simp add: md1 f compose_wrap_twice)
    with False e show ?thesis by simp
  qed
  from run a b c d show ?thesis by blast
qed

theorem index_advances_iff_delivered_witness:
  "map_option currentIndex (messageData_of (runTaskLoop (ascii ''t1'') 0 0 never example_server) 0) = Some 0
   \<and> map_option loopCount (messageData_of (runTaskLoop (ascii ''t1'') 0 0 never example_server) 0) = Some 1
   \<and> map_option currentIndex (messageData_of (runTaskLoop (ascii ''t1'') 0 0 always example_server) 0) = Some 1
   \<and> map_option loopCount (messageData_of (runTaskLoop (ascii ''t1'') 0 0 always example_server) 0) = Some 1"
proof -
  let ?c = "runTaskLoop_compose (ascii ''t1'') 0 0 example_server"
  let ?s1 = "snd (snd (snd (the ?c)))"
  let ?md1 = "(messageData example_task)\<lparr>currentIndex := 0, loopCount := 1\<rparr>"
  have c: "?c = Some (0, ascii ''A hi Z'', ascii ''123'', ?s1)"
    by (simp add: example_server_def example_task_def eval_defs)
  have m: "messageData_of ?s1 0 = Some ?md1"
    by (simp add: example_server_def example_task_def eval_defs)
  have d1: "sendMessage 0 (ascii ''A hi Z'') (ascii ''123'') never ?s1
      = (False, snd (sendMessage 0 (ascii ''A hi Z'') (ascii ''123'') never ?s1))"
    by (simp add: example_server_def example_task_def eval_defs)
  have d2: "sendMessage 0 (ascii ''A hi Z'') (ascii ''123'') always ?s1
      = (True, snd (sendMessage 0 (ascii ''A hi Z'') (ascii ''123'') always ?s1))"
    by (simp add: example_server_def example_task_def eval_defs)
  from index_advances_iff_delivered [OF c d1 m]
  have n: "map_option currentIndex (messageData_of (runTaskLoop (ascii ''t1'') 0 0 never example_server) 0) = Some 0
   \<and> map_option loopCount (messageData_of (runTaskLoop (ascii ''t1'') 0 0 never example_server) 0) = Some 1"
    by auto
  from index_advances_iff_delivered [OF c d2 m]
  have "map_option currentIndex (messageData_of (runTaskLoop (ascii ''t1'') 0 0 always example_server) 0) = Some 1
   \<and> map_option loopCount (messageData_of (runTaskLoop (ascii ''t1'') 0 0 always example_server) 0) = Some 1"
    by auto
  with n show ?thesis by simp
qed

section \<open>The registry counter\<close>

lemma registry_inv_same: "same_registry s s' \<Longrightarrow> registry_inv s \<Longrightarrow> registry_inv s'"
  by (simp add: same_registry_def registry_inv_def)

lemma same_registry_refl [simp]: "same_registry s s"
  by (simp add: same_registry_def)

lemma same_registry_trans: "same_registry s s1 \<Longrightarrow> same_registry s1 s2 \<Longrightarrow> same_registry s s2"
  by (simp add: same_registry_def)

lemma same_registry_prims [simp]:
  "same_registry s (emit x s)" "same_registry s (upd_task r f s)" "same_registry s (log_msg r m s)"
  "same_registry s (upd_manager r g s)" "same_registry s (upd_messageData r h s)"
  by (simp_all add: same_registry_def upd_manager_def upd_messageData_def)

lemma same_registry_checkStopCondition: "same_registry s (snd (checkStopCondition r s))"
  by (simp add: same_registry_def checkStopCondition_def Let_def split: option.splits)

lemma same_registry_createRawSession_begin: "same_registry s (createRawSession_begin r c i s)"
  by (simp add: same_registry_def createRawSession_begin_def)

lemma same_registry_createRawSession_done: "same_registry s (createRawSession_done r i oc s)"
proof -
  have a: "\<And>s1. same_registry s s1 \<Longrightarrow> same_registry s (snd (checkStopCondition r s1))"
    using same_registry_checkStopCondition same_registry_trans by blast
  have b: "\<And>m g. same_registry s (log_msg r m (upd_manager r g s))"
    by (simp add: same_registry_def upd_manager_def)
  show ?thesis
    by (cases oc) (simp_all add: createRawSession_done_def a b)
qed

lemma same_registry_createRawSessions_from: "same_registry s (createRawSessions_from r i s)"
  using same_registry_createRawSession_begin [of s r]
  by (simp add: createRawSessions_from_def Let_def same_registry_def split: option.splits)

lemma same_registry_login_done: "same_registry s (login_done r oc s)"
proof (cases "map_of (boots s) r")
  case None
  then show ?thesis by (simp add: login_done_def)
next
  case (Some i)
  have "same_registry s (createRawSessions_from r (i + 1) (createRawSession_done r i oc s))"
    using same_registry_createRawSession_done same_registry_createRawSessions_from
      same_registry_trans by blast
  with Some show ?thesis by (simp add: login_done_def)
qed

lemma registry_inv_stopTask: "registry_inv s \<Longrightarrow> registry_inv (stopTask i w rsn s)"
proof (cases "map_of (tasks s) i")
  case None
  assume "registry_inv s"
  with None show ?thesis by (simp add: stopTask_absent)
next
  case (Some r)
  assume inv: "registry_inv s"
  show ?thesis
  proof (cases "map_of (store s) r")
    case None
    with Some inv show ?thesis by (simp add: stopTask_def)
  next
    case (Some t)
    from tasks_stopTask [OF \<open>map_of (tasks s) i = Some r\<close> Some, of w rsn] inv
    show ?thesis
      by (simp add: registry_inv_def distinct_delete)
  qed
qed

lemma registry_inv_bootstrap_then: "registry_inv s \<Longrightarrow> registry_inv (bootstrap_then r ok s)"
  by (cases "map_of (store s) r")
     (simp_all add: bootstrap_then_def Let_def registry_inv_stopTask, simp add: registry_inv_def)

lemma registry_inv_drain_fold:
  "registry_inv s \<Longrightarrow> registry_inv (foldl (\<lambda>s (r, ok). bootstrap_then r ok s) s ms)"
  by (induction ms arbitrary: s) (auto simp: registry_inv_bootstrap_then)

lemma registry_inv_drain: "registry_inv s \<Longrightarrow> registry_inv (drain s)"
proof -
  assume "registry_inv s"
  then have "registry_inv (s\<lparr>microtasks := []\<rparr>)" by (simp add: registry_inv_def)
  then show ?thesis unfolding drain_def by (rule registry_inv_drain_fold)
qed

lemma registry_inv_startTask:
  assumes "registry_inv s" and "startTask w d u s = Inr s'"
  shows "registry_inv s'"
proof -
  have keep: "\<And>r s0. registry_inv s0 \<Longrightarrow>
      registry_inv (createRawSessions_from r 0 (log_msg r (TaskStartedLog u) s0))"
    using same_registry_createRawSessions_from same_registry_prims(3) same_registry_trans
      registry_inv_same by blast
  have e: "registry_inv (emit (WsSend w InvalidThreadID) s)"
    using assms(1) by (simp add: registry_inv_def)
  from assms show ?thesis
    by (auto simp: startTask_def Let_def e split: option.splits if_splits intro!: keep)
       (simp add: registry_inv_def distinct_update)
qed

lemma same_registry_runTaskLoop_finish: "same_registry s (runTaskLoop_finish r ok s)"
  by (simp add: runTaskLoop_finish_def Let_def same_registry_def upd_messageData_def)

lemma same_registry_runTaskLoop_compose:
  "runTaskLoop_compose i k1 k2 s = Some (r, msg, th, s1) \<Longrightarrow> same_registry s s1"
  by (auto simp: runTaskLoop_compose_def Let_def same_registry_def upd_messageData_def
      split: option.splits if_splits)

lemma same_registry_runTaskLoop_begin: "same_registry s (runTaskLoop_begin i k1 k2 s)"
proof (cases "runTaskLoop_compose i k1 k2 s")
  case None
  then show ?thesis by (simp add: runTaskLoop_begin_def)
next
  case (Some x)
  obtain r msg th s1 where x: "x = (r, msg, th, s1)" by (cases x) auto
  with Some have a: "same_registry s s1" using same_registry_runTaskLoop_compose by blast
  have b: "same_registry s1 (runTaskLoop_finish r False s1)"
    by (rule same_registry_runTaskLoop_finish)
  from Some x a b show ?thesis
    by (auto simp: runTaskLoop_begin_def Let_def same_registry_def split: option.splits)
qed

lemma same_registry_send_done: "same_registry s (send_done j ok s)"
proof (cases "j < length (inflight s)")
  case False
  then show ?thesis by (simp add: send_done_def)
next
  case True
  obtain r snapshot msg th where x: "inflight s ! j = (r, snapshot, msg, th)"
    by (cases "inflight s ! j") auto
  let ?s1 = "s\<lparr>inflight := take j (inflight s) @ drop (Suc j) (inflight s)\<rparr>"
  let ?res = "sendMessage_loop r msg th ok 0 snapshot ?s1"
  have "same_registry s (snd ?res)" by (simp add: same_registry_def)
  moreover have "same_registry (snd ?res) (runTaskLoop_finish r (fst ?res) (snd ?res))"
    by (rule same_registry_runTaskLoop_finish)
  ultimately have "same_registry s (runTaskLoop_finish r (fst ?res) (snd ?res))"
    by (rule same_registry_trans)
  with True x show ?thesis
    by (simp add: send_done_def Let_def split_beta)
qed

lemma registry_inv_on_message: "registry_inv s \<Longrightarrow> registry_inv (on_message w msg u now s)"
proof (cases msg)
  case (Start d)
  assume inv: "registry_inv s"
  show ?thesis
  proof (cases "startTask w d u s")
    case (Inl e)
    with Start inv show ?thesis by (simp add: on_message_def registry_inv_def)
  next
    case (Inr s')
    with Start inv registry_inv_startTask show ?thesis by (simp add: on_message_def)
  qed
next
  case (StopById k)
  assume "registry_inv s"
  with StopById show ?thesis
    by (cases k) (simp_all add: on_message_def registry_inv_stopTask)
qed (simp_all add: on_message_def registry_inv_def)

lemma registry_inv_handler: "registry_inv s \<Longrightarrow> registry_inv (handler s ev)"
proof (cases ev)
  case (Message w msg u now)
  assume "registry_inv s"
  with Message show ?thesis by (simp add: registry_inv_on_message)
next
  case (LoginDone r oc)
  assume "registry_inv s"
  with LoginDone registry_inv_same [OF same_registry_login_done] show ?thesis by simp
next
  case TimeoutFires
  assume inv: "registry_inv s"
  show ?thesis
  proof (cases "timeouts s")
    case Nil
    with TimeoutFires inv show ?thesis by simp
  next
    case (Cons x rest)
    obtain i w rsn where x: "x = (i, w, rsn)" by (cases x) auto
    from inv have "registry_inv (s\<lparr>timeouts := rest\<rparr>)" by (simp add: registry_inv_def)
    then have "registry_inv (stopTask i w rsn (s\<lparr>timeouts := rest\<rparr>))"
      by (rule registry_inv_stopTask)
    with TimeoutFires Cons x show ?thesis by simp
  qed
next
  case (Tick tm k1 k2)
  assume "registry_inv s"
  with Tick registry_inv_same [OF same_registry_runTaskLoop_begin] show ?thesis
    by (simp split: option.splits)
next
  case (SendDone j ok)
  assume "registry_inv s"
  with SendDone registry_inv_same [OF same_registry_send_done] show ?thesis by simp
next
  case (WsOpened w)
  assume "registry_inv s"
  with WsOpened show ?thesis by (simp add: registry_inv_def)
next
  case (WsClosed w)
  assume "registry_inv s"
  with WsClosed show ?thesis by (simp add: registry_inv_def)
qed

lemma registry_inv_step: "registry_inv s \<Longrightarrow> registry_inv (step s ev)"
  by (simp add: step_def registry_inv_drain registry_inv_handler)

lemma registry_inv_run: "registry_inv s \<Longrightarrow> registry_inv (run s evs)"
  unfolding run_def by (induction evs arbitrary: s) (simp_all add: registry_inv_step)

lemma registry_inv_init: "registry_inv (init t0)"
  by (simp add: registry_inv_def init_def)

lemma registry_inv_card:
  "registry_inv s \<Longrightarrow> activeTasks s = card (dom (map_of (tasks s)))"
  by (simp add: registry_inv_def dom_map_of_conv_image_fst distinct_card flip: set_map)

text \<open>
  Claim C8. In every state the process reaches from its initial state, whatever the
  events, the \<open>activeTasks\<close> value of the \<open>monitor_data\<close> reply equals the number of task ids
  in the registry map, and it still does after any further event: every creation and every
  removal of a task sets the counter to the size of the map.
\<close>

theorem monitor_reports_registry_size:
  assumes "s = run (init t0) evs"
  shows "activeTasks s = card (dom (map_of (tasks s)))
       \<and> on_message w Monitor u now s
         = emit (WsSend w (MonitorData ((now - startTime s) div 1000)
                             (card (dom (map_of (tasks s)))) (totalSent s))) s
       \<and> activeTasks (step s ev) = card (dom (map_of (tasks (step s ev))))"
proof -
  have inv: "registry_inv s" unfolding assms by (rule registry_inv_run [OF registry_inv_init])
  then have a: "activeTasks s = card (dom (map_of (tasks s)))" by (rule registry_inv_card)
  have "registry_inv (step s ev)" using inv by (rule registry_inv_step)
  then have b: "activeTasks (step s ev) = card (dom (map_of (tasks (step s ev))))"
    by (rule registry_inv_card)
  from a b show ?thesis by (simp add: on_message_def monitor_data_def)
qed

theorem monitor_reports_registry_size_witness:
  "on_message 1 Monitor [] 5500 (run (init 0) two_deliveries)
     = emit (WsSend 1 (MonitorData 5 1 2)) (run (init 0) two_deliveries)
   \<and> tasks (run (init 0) two_deliveries) = [(ascii ''t1'', 0)]
   \<and> activeTasks (run (init 0) stop_during_bootstrap) = 0
   \<and> tasks (run (init 0) stop_during_bootstrap) = []"
proof -
  have t: "tasks (run (init 0) two_deliveries) = [(ascii ''t1'', 0)]"
    "totalSent (run (init 0) two_deliveries) = 2" "startTime (run (init 0) two_deliveries) = 0"
    by (simp_all add: two_deliveries_def request_two_cookies_def eval_defs)
  have t2: "tasks (run (init 0) stop_during_bootstrap) = []"
    by (simp add: stop_during_bootstrap_def request_one_cookie_def eval_defs)
  from monitor_reports_registry_size [of "run (init 0) two_deliveries" 0 two_deliveries 1 "[]" 5500]
    monitor_reports_registry_size [of "run (init 0) stop_during_bootstrap" 0 stop_during_bootstrap]
    t t2
  show ?thesis by simp
qed

section \<open>The breach of the unhealthy threshold\<close>

lemma breach_reports_append: "breach_reports (xs @ ys) = breach_reports xs + breach_reports ys"
  by (induction xs rule: breach_reports.induct) simp_all

lemma breach_reports_log_breach:
  "map_of (store s) r = Some t \<Longrightarrow>
   breach_reports (out (log_msg r (TooManyUnhealthy u n) s)) = Suc (breach_reports (out s))"
  by (simp add: log_msg_def Let_def breach_reports_append)

lemma breach_reports_log_other:
  "(case m of TooManyUnhealthy u n \<Rightarrow> False | _ \<Rightarrow> True) \<Longrightarrow>
   breach_reports (out (log_msg r m s)) = breach_reports (out s)"
  by (cases "map_of (store s) r"; cases m) (simp_all add: log_msg_def Let_def breach_reports_append)

lemma checkStopCondition_effect:
  assumes "map_of (store s) r = Some t"
  shows "store (snd (checkStopCondition r s)) = store s
    \<and> timeouts (snd (checkStopCondition r s))
        = timeouts s @ (if unhealthyThreshold (rawManager t) \<le> unhealthyCount (rawManager t)
                        then [(m_taskId (rawManager t), m_ws (rawManager t), MostCookiesFailed)]
                        else [])
    \<and> breach_reports (out (snd (checkStopCondition r s)))
        = breach_reports (out s)
          + (if unhealthyThreshold (rawManager t) \<le> unhealthyCount (rawManager t) then 1 else 0)"
  using assms by (simp add: checkStopCondition_def Let_def breach_reports_log_breach)

lemma createRawSession_effect:
  assumes "map_of (store s) r = Some t"
  shows "\<exists>t'. map_of (store (createRawSession r c i oc s)) r = Some t'
    \<and> unhealthyCount (rawManager t')
        = unhealthyCount (rawManager t) + (if is_failure oc then 1 else 0)
    \<and> unhealthyThreshold (rawManager t') = unhealthyThreshold (rawManager t)
    \<and> m_taskId (rawManager t') = m_taskId (rawManager t)
    \<and> m_ws (rawManager t') = m_ws (rawManager t)
    \<and> timeouts (createRawSession r c i oc s)
        = timeouts s @ (if is_failure oc
                           \<and> unhealthyThreshold (rawManager t) \<le> unhealthyCount (rawManager t) + 1
                        then [(m_taskId (rawManager t), m_ws (rawManager t), MostCookiesFailed)]
                        else [])
    \<and> breach_reports (out (createRawSession r c i oc s))
        = breach_reports (out s)
          + (if is_failure oc
                \<and> unhealthyThreshold (rawManager t) \<le> unhealthyCount (rawManager t) + 1
             then 1 else 0)"
proof -
  let ?s0 = "createRawSession_begin r c i s"
  have s0: "map_of (store ?s0) r = Some t" "timeouts ?s0 = timeouts s"
    "breach_reports (out ?s0) = breach_reports (out s)"
    using assms by (simp_all add: createRawSession_begin_def breach_reports_append breach_reports_log_other)
  show ?thesis
  proof (cases "is_failure oc")
    case False
    then obtain a where oc: "oc = Ready a" by (cases oc) auto
    with s0 show ?thesis
      by (simp add: createRawSession_def createRawSession_done_def upd_manager_def
          map_of_map_entry_same breach_reports_log_other)
  next
    case True
    let ?t1 = "t\<lparr>rawManager := (rawManager t)\<lparr>unhealthyCount := unhealthyCount (rawManager t) + 1\<rparr>\<rparr>"
    let ?s1 = "upd_manager r (\<lambda>m. m\<lparr>unhealthyCount := unhealthyCount m + 1\<rparr>) ?s0"
    have s1: "\<And>m. (case m of TooManyUnhealthy u n \<Rightarrow> False | _ \<Rightarrow> True) \<Longrightarrow>
        map_of (store (log_msg r m ?s1)) r = Some ?t1
        \<and> timeouts (log_msg r m ?s1) = timeouts s
        \<and> breach_reports (out (log_msg r m ?s1)) = breach_reports (out s)"
      using s0 by (simp add: upd_manager_def map_of_map_entry_same breach_reports_log_other)
    have fin: "\<And>m. (case m of TooManyUnhealthy u n \<Rightarrow> False | _ \<Rightarrow> True) \<Longrightarrow>
        map_of (store (snd (checkStopCondition r (log_msg r m ?s1)))) r = Some ?t1
        \<and> timeouts (snd (checkStopCondition r (log_msg r m ?s1)))
            = timeouts s @ (if unhealthyThreshold (rawManager t) \<le> unhealthyCount (rawManager t) + 1
                        then [(m_taskId (rawManager t), m_ws (rawManager t), MostCookiesFailed)]
                        else [])
        \<and> breach_reports (out (snd (checkStopCondition r (log_msg r m ?s1))))
            = breach_reports (out s)
              + (if unhealthyThreshold (rawManager t) \<le> unhealthyCount (rawManager t) + 1 then 1 else 0)"
    proof -
      fix m :: log_text
      assume "case m of TooManyUnhealthy u n \<Rightarrow> False | _ \<Rightarrow> True"
      from s1 [OF this] have a: "map_of (store (log_msg r m ?s1)) r = Some ?t1"
        "timeouts (log_msg r m ?s1) = timeouts s"
        "breach_reports (out (log_msg r m ?s1)) = breach_reports (out s)"
        by simp_all
      from checkStopCondition_effect [OF a(1)] a
      show "map_of (store (snd (checkStopCondition r (log_msg r m ?s1)))) r = Some ?t1
        \<and> timeouts (snd (checkStopCondition r (log_msg r m ?s1)))
            = timeouts s @ (if unhealthyThreshold (rawManager t) \<le> unhealthyCount (rawManager t) + 1
                        then [(m_taskId (rawManager t), m_ws (rawManager t), MostCookiesFailed)]
                        else [])
        \<and> breach_reports (out (snd (checkStopCondition r (log_msg r m ?s1))))
            = breach_reports (out s)
              + (if unhealthyThreshold (rawManager t) \<le> unhealthyCount (rawManager t) + 1 then 1 else 0)"
        by simp
    qed
    from True have "oc = LoginFailed \<or> oc = NoThreadAccess" by (cases oc) auto
    then show ?thesis
    proof
      assume "oc = LoginFailed"
      with fin [of "SessionFailed (i + 1)"] True show ?thesis
        by (simp add: createRawSession_def createRawSession_done_def)
    next
      assume "oc = NoThreadAccess"
      with fin [of "SessionNoThread (i + 1)"] True show ?thesis
        by (simp add: createRawSession_def createRawSession_done_def)
    qed
  qed
qed

lemma createRawSessions_upto_Suc:
  "createRawSessions_upto r cs answers (Suc n) s
     = createRawSession r (cs ! n) n (answers n) (createRawSessions_upto r cs answers n s)"
  by (simp add: createRawSessions_upto_def)

lemma failures_Suc:
  "failures answers (Suc n) = failures answers n + (if is_failure (answers n) then 1 else 0)"
  by (simp add: failures_def)

lemma signal_count_step:
  "(u + f + 1 - th) - (u + 1 - th) + (if c \<and> th \<le> u + f + 1 then 1 else 0)
     = (u + (f + (if c then 1 else 0)) + 1 - th) - (u + 1 - (th::nat))"
  by auto

lemma createRawSessions_upto_effect:
  assumes "map_of (store s) r = Some t"
  shows "\<exists>t'. map_of (store (createRawSessions_upto r cs answers n s)) r = Some t'
    \<and> unhealthyCount (rawManager t') = unhealthyCount (rawManager t) + failures answers n
    \<and> unhealthyThreshold (rawManager t') = unhealthyThreshold (rawManager t)
    \<and> m_taskId (rawManager t') = m_taskId (rawManager t)
    \<and> m_ws (rawManager t') = m_ws (rawManager t)
    \<and> timeouts (createRawSessions_upto r cs answers n s)
        = timeouts s
          @ replicate ((unhealthyCount (rawManager t) + failures answers n + 1 - unhealthyThreshold (rawManager t))
                       - (unhealthyCount (rawManager t) + 1 - unhealthyThreshold (rawManager t)))
              (m_taskId (rawManager t), m_ws (rawManager t), MostCookiesFailed)
    \<and> breach_reports (out (createRawSessions_upto r cs answers n s))
        = breach_reports (out s)
          + ((unhealthyCount (rawManager t) + failures answers n + 1 - unhealthyThreshold (rawManager t))
             - (unhealthyCount (rawManager t) + 1 - unhealthyThreshold (rawManager t)))"
proof (induction n)
  case 0
  with assms show ?case by (simp add: createRawSessions_upto_def failures_def)
next
  case (Suc n)
  let ?u = "unhealthyCount (rawManager t)" and ?th = "unhealthyThreshold (rawManager t)"
  let ?sig = "(m_taskId (rawManager t), m_ws (rawManager t), MostCookiesFailed)"
  let ?sn = "createRawSessions_upto r cs answers n s"
  from Suc obtain t1 where t1: "map_of (store ?sn) r = Some t1"
    "unhealthyCount (rawManager t1) = ?u + failures answers n"
    "unhealthyThreshold (rawManager t1) = ?th"
    "m_taskId (rawManager t1) = m_taskId (rawManager t)" "m_ws (rawManager t1) = m_ws (rawManager t)"
    "timeouts ?sn = timeouts s @ replicate ((?u + failures answers n + 1 - ?th) - (?u + 1 - ?th)) ?sig"
    "breach_reports (out ?sn) = breach_reports (out s) + ((?u + failures answers n + 1 - ?th) - (?u + 1 - ?th))"
    by blast
  from createRawSession_effect [OF t1(1), of "cs ! n" n "answers n"]
  obtain t2 where t2: "map_of (store (createRawSessions_upto r cs answers (Suc n) s)) r = Some t2"
    "unhealthyCount (rawManager t2) = ?u + failures answers (Suc n)"
    "unhealthyThreshold (rawManager t2) = ?th"
    "m_taskId (rawManager t2) = m_taskId (rawManager t)" "m_ws (rawManager t2) = m_ws (rawManager t)"
    "timeouts (createRawSessions_upto r cs answers (Suc n) s)
       = timeouts ?sn @ (if is_failure (answers n) \<and> ?th \<le> ?u + failures answers n + 1 then [?sig] else [])"
    "breach_reports (out (createRawSessions_upto r cs answers (Suc n) s))
       = breach_reports (out ?sn) + (if is_failure (answers n) \<and> ?th \<le> ?u + failures answers n + 1 then 1 else 0)"
    unfolding createRawSessions_upto_Suc failures_Suc t1(2-5) by (auto simp: add.assoc)
  have cnt: "(?u + failures answers n + 1 - ?th) - (?u + 1 - ?th)
        + (if is_failure (answers n) \<and> ?th \<le> ?u + failures answers n + 1 then 1 else 0)
      = (?u + failures answers (Suc n) + 1 - ?th) - (?u + 1 - ?th)"
    unfolding failures_Suc by (rule signal_count_step)
  have rep: "\<And>a (x :: tid \<times> ws_id \<times> reason) c. replicate a x @ (if c then [x] else [])
      = replicate (a + (if c then 1 else 0)) x"
    by (simp add: replicate_append_same)
  let ?A = "(?u + failures answers n + 1 - ?th) - (?u + 1 - ?th)"
  let ?I = "if is_failure (answers n) \<and> ?th \<le> ?u + failures answers n + 1 then 1 else (0::nat)"
  let ?B = "(?u + failures answers (Suc n) + 1 - ?th) - (?u + 1 - ?th)"
  have AB: "?A + ?I = ?B" by (rule cnt)
  have "timeouts (createRawSessions_upto r cs answers (Suc n) s)
      = timeouts s @ (replicate ?A ?sig
          @ (if is_failure (answers n) \<and> ?th \<le> ?u + failures answers n + 1 then [?sig] else []))"
    by (simp only: t2(6) t1(6) append_assoc)
  also have "\<dots> = timeouts s @ replicate (?A + ?I) ?sig"
    by (simp only: rep)
  finally have tm: "timeouts (createRawSessions_upto r cs answers (Suc n) s)
      = timeouts s @ replicate ?B ?sig"
    by (simp only: AB)
  have "breach_reports (out (createRawSessions_upto r cs answers (Suc n) s))
      = breach_reports (out s) + (?A + ?I)"
    by (simp only: t2(7) t1(7) add.assoc)
  then have br: "breach_reports (out (createRawSessions_upto r cs answers (Suc n) s))
      = breach_reports (out s) + ?B"
    by (simp only: AB)
  from t2(1-5) tm br show ?case by blast
qed

lemma stopTask_twice:
  "stopTask i w' rsn' (stopTask i w rsn s) = stopTask i w rsn s"
proof (cases "stopTask i w rsn s = s")
  case True
  have "stopTask i w' rsn' s = s"
    by (rule stopTask_fixed [OF True])
  then show ?thesis by (simp only: True)
next
  case False
  then have "map_of (tasks (stopTask i w rsn s)) i = None"
    using stopTask_absent_after by blast
  then show ?thesis
    by (rule stopTask_absent)
qed

lemma stopTask_timeouts_update:
  "stopTask i w rsn (s\<lparr>timeouts := x\<rparr>) = (stopTask i w rsn s)\<lparr>timeouts := x\<rparr>"
proof (cases "map_of (tasks s) i")
  case None
  then show ?thesis by (simp add: stopTask_def)
next
  case (Some r)
  show ?thesis
  proof (cases "map_of (store s) r")
    case None
    with Some show ?thesis by (simp add: stopTask_def)
  next
    case (Some t)
    with \<open>map_of (tasks s) i = Some r\<close> show ?thesis
      by (cases "intervalId t")
         (simp_all add: stopTask_def Let_def upd_task_def emit_def log_msg_def
            map_of_map_entry_same)
  qed
qed

lemma timeouts_stopTask: "timeouts (stopTask i w rsn s) = timeouts s"
  by (simp add: stopTask_def Let_def split: option.splits)

lemma handler_TimeoutFires:
  "timeouts s0 = (i, w, rsn) # rest \<Longrightarrow>
   handler s0 TimeoutFires = (stopTask i w rsn s0)\<lparr>timeouts := rest\<rparr>"
  by (simp add: stopTask_timeouts_update)

lemma deferred_calls_in_a_row:
  "timeouts s0 = replicate k (i, w, rsn) \<Longrightarrow>
   foldl handler s0 (replicate k TimeoutFires)
     = (if k = 0 then s0 else (stopTask i w rsn s0)\<lparr>timeouts := []\<rparr>)"
proof (induction k arbitrary: s0)
  case 0
  then show ?case by simp
next
  case (Suc k)
  let ?s1 = "(stopTask i w rsn s0)\<lparr>timeouts := replicate k (i, w, rsn)\<rparr>"
  from Suc.prems have h: "handler s0 TimeoutFires = ?s1"
    by (simp add: stopTask_timeouts_update)
  have t1: "timeouts ?s1 = replicate k (i, w, rsn)" by simp
  have idem: "stopTask i w rsn ?s1 = ?s1"
    by (simp only: stopTask_timeouts_update stopTask_twice)
  have "foldl handler s0 (replicate (Suc k) TimeoutFires)
      = foldl handler ?s1 (replicate k TimeoutFires)"
    by (simp only: replicate.simps foldl_Cons h)
  also have "\<dots> = (if k = 0 then ?s1 else (stopTask i w rsn ?s1)\<lparr>timeouts := []\<rparr>)"
    by (rule Suc.IH [OF t1])
  also have "\<dots> = (stopTask i w rsn s0)\<lparr>timeouts := []\<rparr>"
  proof (cases "k = 0")
    case True
    then show ?thesis by simp
  next
    case False
    have "(stopTask i w rsn ?s1)\<lparr>timeouts := []\<rparr> = ?s1\<lparr>timeouts := []\<rparr>"
      by (simp only: idem)
    also have "\<dots> = (stopTask i w rsn s0)\<lparr>timeouts := []\<rparr>"
      by simp
    finally show ?thesis using False by (simp only: if_False)
  qed
  finally show ?case by simp
qed

text \<open>
  Claim C1, as the code has it. During the bootstrap of a fresh session pool, every
  failure that leaves \<open>unhealthyCount\<close> at or above the threshold reports the breach and
  schedules one deferred \<open>stopTask\<close> of the task's id: after \<open>n\<close> credentials with \<open>f\<close>
  failures among them there are \<open>f + 1 - threshold\<close> signals (none while \<open>f\<close> is below the
  threshold, the first when \<open>f\<close> reaches it, one more for each later failure), and as many
  report lines. When no other deferred call was pending and the queued calls run one after
  the other, their effect is that of a single \<open>stopTask\<close>, the queue emptied; and a deferred
  call that runs in a state where the task's id is not in the registry changes nothing but
  the queue it leaves.
\<close>

theorem breach_signalled_at_every_failure:
  assumes "map_of (store s) r = Some t"
    and "unhealthyCount (rawManager t) = 0"
    and "1 \<le> unhealthyThreshold (rawManager t)"
  shows "timeouts (createRawSessions_upto r cs answers n s)
        = timeouts s
          @ replicate (failures answers n + 1 - unhealthyThreshold (rawManager t))
              (m_taskId (rawManager t), m_ws (rawManager t), MostCookiesFailed)
    \<and> breach_reports (out (createRawSessions_upto r cs answers n s))
        = breach_reports (out s) + (failures answers n + 1 - unhealthyThreshold (rawManager t))
    \<and> snd (createRawSessions r answers s)
        = createRawSessions_upto r (cookies (config t)) answers (length (cookies (config t))) s
    \<and> (timeouts s \<noteq> []
        \<or> foldl handler (createRawSessions_upto r cs answers n s)
             (replicate (failures answers n + 1 - unhealthyThreshold (rawManager t)) TimeoutFires)
           = (if failures answers n + 1 - unhealthyThreshold (rawManager t) = 0
              then createRawSessions_upto r cs answers n s
              else (stopTask (m_taskId (rawManager t)) (m_ws (rawManager t)) MostCookiesFailed
                      (createRawSessions_upto r cs answers n s))\<lparr>timeouts := []\<rparr>))
    \<and> (map_of (tasks s0) (m_taskId (rawManager t)) \<noteq> None
        \<or> timeouts s0 \<noteq> (m_taskId (rawManager t), m_ws (rawManager t), MostCookiesFailed) # rest
        \<or> handler s0 TimeoutFires = s0\<lparr>timeouts := rest\<rparr>)"
proof -
  have z: "0 + 1 - unhealthyThreshold (rawManager t) = 0" using assms(3) by simp
  from createRawSessions_upto_effect [OF assms(1), of cs answers n]
  have a: "timeouts (createRawSessions_upto r cs answers n s)
        = timeouts s
          @ replicate (failures answers n + 1 - unhealthyThreshold (rawManager t))
              (m_taskId (rawManager t), m_ws (rawManager t), MostCookiesFailed)"
    and b: "breach_reports (out (createRawSessions_upto r cs answers n s))
        = breach_reports (out s) + (failures answers n + 1 - unhealthyThreshold (rawManager t))"
    unfolding assms(2) z by auto
  have c: "snd (createRawSessions r answers s)
        = createRawSessions_upto r (cookies (config t)) answers (length (cookies (config t))) s"
    using assms(1) by (simp add: createRawSessions_def Let_def split: option.splits)
  have d: "timeouts s \<noteq> []
        \<or> foldl handler (createRawSessions_upto r cs answers n s)
             (replicate (failures answers n + 1 - unhealthyThreshold (rawManager t)) TimeoutFires)
           = (if failures answers n + 1 - unhealthyThreshold (rawManager t) = 0
              then createRawSessions_upto r cs answers n s
              else (stopTask (m_taskId (rawManager t)) (m_ws (rawManager t)) MostCookiesFailed
                      (createRawSessions_upto r cs answers n s))\<lparr>timeouts := []\<rparr>)"
  proof (cases "timeouts s = []")
    case True
    with a have "timeouts (createRawSessions_upto r cs answers n s)
        = replicate (failures answers n + 1 - unhealthyThreshold (rawManager t))
              (m_taskId (rawManager t), m_ws (rawManager t), MostCookiesFailed)"
      by simp
    from deferred_calls_in_a_row [OF this] show ?thesis by blast
  next
    case False
    then show ?thesis by blast
  qed
  have e: "map_of (tasks s0) (m_taskId (rawManager t)) \<noteq> None
        \<or> timeouts s0 \<noteq> (m_taskId (rawManager t), m_ws (rawManager t), MostCookiesFailed) # rest
        \<or> handler s0 TimeoutFires = s0\<lparr>timeouts := rest\<rparr>"
  proof (cases "map_of (tasks s0) (m_taskId (rawManager t)) = None
      \<and> timeouts s0 = (m_taskId (rawManager t), m_ws (rawManager t), MostCookiesFailed) # rest")
    case True
    then have "handler s0 TimeoutFires
        = (stopTask (m_taskId (rawManager t)) (m_ws (rawManager t)) MostCookiesFailed s0)\<lparr>timeouts := rest\<rparr>"
      using handler_TimeoutFires by blast
    also have "\<dots> = s0\<lparr>timeouts := rest\<rparr>"
      using True by (simp only: stopTask_absent)
    finally show ?thesis by simp
  next
    case False
    then show ?thesis by auto
  qed
  from a b c d e show ?thesis by simp
qed

theorem breach_signalled_at_every_failure_witness:
  "map_of (store fresh_server) 0 = Some fresh_task
   \<and> unhealthyCount (rawManager fresh_task) = 0
   \<and> unhealthyThreshold (rawManager fresh_task) = 1
   \<and> timeouts (createRawSessions_upto 0 (cookies (config fresh_task)) all_fail 1 fresh_server)
       = [(ascii ''t1'', 1, MostCookiesFailed)]
   \<and> timeouts (snd (createRawSessions 0 all_fail fresh_server))
       = [(ascii ''t1'', 1, MostCookiesFailed), (ascii ''t1'', 1, MostCookiesFailed)]
   \<and> breach_reports (out (snd (createRawSessions 0 all_fail fresh_server))) = 2
   \<and> foldl handler (snd (createRawSessions 0 all_fail fresh_server)) (replicate 2 TimeoutFires)
       = (stopTask (ascii ''t1'') 1 MostCookiesFailed (snd (createRawSessions 0 all_fail fresh_server)))
           \<lparr>timeouts := []\<rparr>
   \<and> tasks (snd (createRawSessions 0 all_fail fresh_server)) = [(ascii ''t1'', 0)]
   \<and> tasks (handler (snd (createRawSessions 0 all_fail fresh_server)) TimeoutFires) = []
   \<and> handler (handler (snd (createRawSessions 0 all_fail fresh_server)) TimeoutFires) TimeoutFires
       = (handler (snd (createRawSessions 0 all_fail fresh_server)) TimeoutFires)\<lparr>timeouts := []\<rparr>"
proof -
  let ?S = "snd (createRawSessions 0 all_fail fresh_server)"
  have h: "map_of (store fresh_server) 0 = Some fresh_task"
    "unhealthyCount (rawManager fresh_task) = 0" "1 \<le> unhealthyThreshold (rawManager fresh_task)"
    by (simp_all add: fresh_server_def fresh_task_def RawSessionManager_new_def)
  have f: "failures all_fail (Suc 0) = Suc 0" "failures all_fail 2 = 2"
    "failures all_fail (Suc (Suc 0)) = Suc (Suc 0)"
    by (simp_all add: failures_def all_fail_def upt_rec)
  have v: "unhealthyThreshold (rawManager fresh_task) = 1" "length (cookies (config fresh_task)) = 2"
    "m_taskId (rawManager fresh_task) = ascii ''t1''" "m_ws (rawManager fresh_task) = 1"
    "timeouts fresh_server = []" "breach_reports (out fresh_server) = 0"
    by (simp_all add: fresh_server_def fresh_task_def RawSessionManager_new_def)
  have e: "tasks ?S = [(ascii ''t1'', 0)]"
    "tasks (handler ?S TimeoutFires) = []"
    "timeouts (handler ?S TimeoutFires) = [(ascii ''t1'', 1, MostCookiesFailed)]"
    by (simp_all add: eval_defs createRawSessions_def createRawSessions_upto_def
        createRawSession_def fresh_server_def fresh_task_def)
  from e(2) have n: "map_of (tasks (handler ?S TimeoutFires)) (ascii ''t1'') = None"
    by simp
  note w = breach_signalled_at_every_failure [OF h]
  from w [of "cookies (config fresh_task)" all_fail 1 fresh_server "[]"]
  have p1: "timeouts (createRawSessions_upto 0 (cookies (config fresh_task)) all_fail 1 fresh_server)
       = [(ascii ''t1'', 1, MostCookiesFailed)]"
    by (simp add: f v del: handler.simps)
  note w2 = w [of "cookies (config fresh_task)" all_fail 2 "handler ?S TimeoutFires" "[]"]
  have k: "failures all_fail 2 + 1 - unhealthyThreshold (rawManager fresh_task) = 2"
    by (simp add: f v)
  have S: "?S = createRawSessions_upto 0 (cookies (config fresh_task)) all_fail 2 fresh_server"
    using conjunct1 [OF conjunct2 [OF conjunct2 [OF w2]]] by (simp add: v)
  have p2: "timeouts ?S
       = [(ascii ''t1'', 1, MostCookiesFailed), (ascii ''t1'', 1, MostCookiesFailed)]"
    using conjunct1 [OF w2] by (simp add: S f v numeral_2_eq_2)
  have p3: "breach_reports (out ?S) = 2"
    using conjunct1 [OF conjunct2 [OF w2]] by (simp add: S f v)
  have p4: "foldl handler ?S (replicate 2 TimeoutFires)
       = (stopTask (ascii ''t1'') 1 MostCookiesFailed ?S)\<lparr>timeouts := []\<rparr>"
    using conjunct1 [OF conjunct2 [OF conjunct2 [OF conjunct2 [OF w2]]]]
    unfolding k v(3,4) by (simp add: S f v del: handler.simps)
  have p5: "handler (handler ?S TimeoutFires) TimeoutFires = (handler ?S TimeoutFires)\<lparr>timeouts := []\<rparr>"
    using conjunct2 [OF conjunct2 [OF conjunct2 [OF conjunct2 [OF w2]]]] n e(3)
    unfolding v(3,4) by (simp del: handler.simps)
  from h(1,2) v(1) p1 p2 p3 p4 p5 e(1,2) show ?thesis by (simp del: handler.simps)
qed

text \<open>
  Claim C1, as stated, fails: with two credentials the threshold is 1, the first failed
  login reports the breach and schedules the teardown, and the second failed login reports
  and schedules it again.
\<close>

theorem breach_signalled_twice:
  "timeouts (run (init 0) both_fail)
     = [(ascii ''t1'', 1, MostCookiesFailed), (ascii ''t1'', 1, MostCookiesFailed)]
   \<and> breach_reports (out (run (init 0) both_fail)) = 2
   \<and> breach_reports (out (run (init 0) (take 3 both_fail))) = 1"
  by (simp add: both_fail_def request_two_cookies_def eval_defs)

section \<open>Validation of a start request\<close>

lemma store_createRawSessions_from [simp]:
  "store (createRawSessions_from r i s) = store s"
  by (simp add: createRawSessions_from_def createRawSession_begin_def Let_def split: option.splits)




section \<open>Stopping during the bootstrap\<close>

lemma stopTask_clears_interval:
  assumes "map_of (tasks s) i = Some r" and "map_of (store s) r = Some t"
    and "intervalId t = Some tm"
  shows "map_of (timers (stopTask i w rsn s)) tm = None"
  using assms by (simp add: stopTask_def Let_def delete_conv)

text \<open>
  Claim C2 against the code. A stop request arrives while the only login of a bootstrap is
  in flight: the task is removed from the registry and its running flag is cleared, and no
  interval exists yet, so none is cancelled. When the login then succeeds, the callback of
  the bootstrap creates the interval all the same and announces that the task has started:
  the interval of a stopped task stays live, and nothing is left that could cancel it.
\<close>

theorem interval_created_after_stop:
  "tasks (run (init 0) (take 3 stop_during_bootstrap)) = []
   \<and> boots (run (init 0) (take 3 stop_during_bootstrap)) = [(0, 0)]
   \<and> timers (run (init 0) (take 3 stop_during_bootstrap)) = []
   \<and> tasks (run (init 0) stop_during_bootstrap) = []
   \<and> timers (run (init 0) stop_during_bootstrap) = [(0, ascii ''t1'')]
   \<and> map_option (running \<circ> config) (map_of (store (run (init 0) stop_during_bootstrap)) 0)
       = Some False
   \<and> map_option intervalId (map_of (store (run (init 0) stop_during_bootstrap)) 0)
       = Some (Some 0)
   \<and> last (out (run (init 0) stop_during_bootstrap)) = WsSend 1 (TaskStarted (ascii ''t1''))"
  by (simp add: stop_during_bootstrap_def request_one_cookie_def eval_defs)

end
